theory Spec2Isabelle
  imports Complex_Main "HOL-Library.Log_Nat" "HOL-Library.Multiset" "HOL-Library.Option_ord"
begin

section \<open>JavaScript Numbers\<close>

text \<open>
  \<^verbatim>\<open>script.js\<close> computes with JavaScript Numbers: IEEE 754 binary64 values, every
  arithmetic result rounded to nearest, ties to even. A Number is modelled by its exact
  rational value, or one of the three special values. The two zeros are identified:
  they are \<^verbatim>\<open>===\<close> in JavaScript, JSON prints both as \<^verbatim>\<open>0\<close>, and the program never
  divides by a value that can be zero.
\<close>

datatype jsnum = Fin rat | PInf | NInf | NaN

definition pow2 :: "int \<Rightarrow> rat" where
  "pow2 e = (if 0 \<le> e then 2 ^ nat e else 1 / 2 ^ nat (- e))"

text \<open>The exponent \<open>e\<close> with \<open>2^e \<le> a < 2^(e+1)\<close>, for a positive rational \<open>a\<close>.\<close>

definition ilog2 :: "rat \<Rightarrow> int" where
  "ilog2 a = (let (p, q) = quotient_of a; d = bitlen p - bitlen q
              in if pow2 d \<le> a then d else d - 1)"

text \<open>Rounding a non-negative rational to the nearest integer, ties to the even one.\<close>

definition round_half_even :: "rat \<Rightarrow> int" where
  "round_half_even x = (let f = \<lfloor>x\<rfloor>; r = x - of_int f
     in if r < 1 / 2 then f else if 1 / 2 < r then f + 1
        else if even f then f else f + 1)"

text \<open>
  Rounding a rational to binary64: 53 significant bits, the exponent of a subnormal
  fixed at \<open>-1022\<close>. The rounded value is \<open>n * 2^(e - 52)\<close> with \<open>n \<le> 2^53\<close>; it
  has left the finite range (it is \<open>2^1024\<close> or more) when \<open>e\<close> exceeds \<open>1023\<close>, or
  \<open>e = 1023\<close> and the rounding carried to \<open>n = 2^53\<close>.
\<close>

definition rnd :: "rat \<Rightarrow> jsnum" where
  "rnd q = (if q = 0 then Fin 0 else
     let a = \<bar>q\<bar>;
         e = max (ilog2 a) (- 1022);
         ulp = pow2 (e - 52);
         n = round_half_even (a / ulp)
     in if 1023 < e \<or> (e = 1023 \<and> n = 9007199254740992)
        then (if 0 < q then PInf else NInf)
        else Fin (if 0 < q then of_int n * ulp else - (of_int n * ulp)))"

definition is_double :: "rat \<Rightarrow> bool" where
  "is_double q \<longleftrightarrow> rnd q = Fin q"

fun jsneg :: "jsnum \<Rightarrow> jsnum" where
  "jsneg (Fin a) = Fin (- a)"
| "jsneg PInf = NInf"
| "jsneg NInf = PInf"
| "jsneg NaN = NaN"

fun jsadd :: "jsnum \<Rightarrow> jsnum \<Rightarrow> jsnum" where
  "jsadd NaN y = NaN"
| "jsadd x NaN = NaN"
| "jsadd PInf NInf = NaN"
| "jsadd NInf PInf = NaN"
| "jsadd PInf y = PInf"
| "jsadd x PInf = PInf"
| "jsadd NInf y = NInf"
| "jsadd x NInf = NInf"
| "jsadd (Fin a) (Fin b) = rnd (a + b)"

definition jssub :: "jsnum \<Rightarrow> jsnum \<Rightarrow> jsnum" where
  "jssub x y = jsadd x (jsneg y)"

text \<open>The sign of a Number that is not NaN: \<open>-1\<close>, \<open>0\<close> or \<open>1\<close>.\<close>

fun jssgn :: "jsnum \<Rightarrow> int" where
  "jssgn (Fin a) = (if 0 < a then 1 else if a < 0 then - 1 else 0)"
| "jssgn PInf = 1"
| "jssgn NInf = - 1"
| "jssgn NaN = 0"

fun jsmul :: "jsnum \<Rightarrow> jsnum \<Rightarrow> jsnum" where
  "jsmul NaN y = NaN"
| "jsmul x NaN = NaN"
| "jsmul (Fin a) (Fin b) = rnd (a * b)"
| "jsmul x y = (let s = jssgn x * jssgn y
                in if s = 0 then NaN else if 0 < s then PInf else NInf)"

fun jsdiv :: "jsnum \<Rightarrow> jsnum \<Rightarrow> jsnum" where
  "jsdiv NaN y = NaN"
| "jsdiv x NaN = NaN"
| "jsdiv (Fin a) (Fin b) =
     (if b = 0 then (if a = 0 then NaN else if 0 < a then PInf else NInf)
      else rnd (a / b))"
| "jsdiv (Fin a) y = Fin 0"
| "jsdiv x (Fin b) = (if 0 \<le> b then x else jsneg x)"
| "jsdiv x y = NaN"

text \<open>\<^verbatim>\<open>x < y\<close>; false as soon as an operand is NaN.\<close>

fun jslt :: "jsnum \<Rightarrow> jsnum \<Rightarrow> bool" where
  "jslt NaN y = False"
| "jslt x NaN = False"
| "jslt (Fin a) (Fin b) = (a < b)"
| "jslt x NInf = False"
| "jslt NInf y = True"
| "jslt PInf y = False"
| "jslt x PInf = True"

definition jsgt :: "jsnum \<Rightarrow> jsnum \<Rightarrow> bool" where
  "jsgt x y = jslt y x"

text \<open>\<^verbatim>\<open>x <= y\<close>: neither operand NaN, and not \<^verbatim>\<open>y < x\<close>.\<close>

definition jsle :: "jsnum \<Rightarrow> jsnum \<Rightarrow> bool" where
  "jsle x y \<longleftrightarrow> x \<noteq> NaN \<and> y \<noteq> NaN \<and> \<not> jslt y x"

text \<open>An integer as a Number (the nearest one beyond \<open>2^53\<close>).\<close>

definition jsint :: "int \<Rightarrow> jsnum" where
  "jsint k = rnd (of_int k)"

section \<open>Strings\<close>

text \<open>
  Strings hold their text in UTF-8. The white space that \<^verbatim>\<open>trim\<close> and \<^verbatim>\<open>parseFloat\<close>
  skip is that of the language, each character as the bytes of its encoding: tab, line
  feed, vertical tab, form feed, carriage return, space, U+00A0, U+1680, U+2000 to
  U+200A, U+2028, U+2029, U+202F, U+205F, U+3000 and U+FEFF.
\<close>

definition white_space :: "string list" where
  "white_space =
     [[CHR 0x09], [CHR 0x0A], [CHR 0x0B], [CHR 0x0C], [CHR 0x0D], [CHR 0x20],
      [CHR 0xC2, CHR 0xA0], [CHR 0xE1, CHR 0x9A, CHR 0x80],
      [CHR 0xE2, CHR 0x80, CHR 0x80], [CHR 0xE2, CHR 0x80, CHR 0x81],
      [CHR 0xE2, CHR 0x80, CHR 0x82], [CHR 0xE2, CHR 0x80, CHR 0x83],
      [CHR 0xE2, CHR 0x80, CHR 0x84], [CHR 0xE2, CHR 0x80, CHR 0x85],
      [CHR 0xE2, CHR 0x80, CHR 0x86], [CHR 0xE2, CHR 0x80, CHR 0x87],
      [CHR 0xE2, CHR 0x80, CHR 0x88], [CHR 0xE2, CHR 0x80, CHR 0x89],
      [CHR 0xE2, CHR 0x80, CHR 0x8A], [CHR 0xE2, CHR 0x80, CHR 0xA8],
      [CHR 0xE2, CHR 0x80, CHR 0xA9], [CHR 0xE2, CHR 0x80, CHR 0xAF],
      [CHR 0xE2, CHR 0x81, CHR 0x9F], [CHR 0xE3, CHR 0x80, CHR 0x80],
      [CHR 0xEF, CHR 0xBB, CHR 0xBF]]"

text \<open>
  The number of bytes of the character of \<open>ws\<close> that \<open>s\<close> starts with, \<open>0\<close> when it
  starts with none; and \<open>s\<close> without the characters of \<open>ws\<close> at its start.
\<close>

definition ws_at_start :: "string list \<Rightarrow> string \<Rightarrow> nat" where
  "ws_at_start ws s =
     (case find (\<lambda>w. take (length w) s = w) ws of Some w \<Rightarrow> length w | None \<Rightarrow> 0)"

function skip_ws :: "string list \<Rightarrow> string \<Rightarrow> string" where
  "skip_ws ws s = (if ws_at_start ws s = 0 then s else skip_ws ws (drop (ws_at_start ws s) s))"
  by pat_completeness auto
termination
proof (relation "measure (\<lambda>(ws, s). length s)")
  show "wf (measure (\<lambda>(ws :: string list, s :: string). length s))" by simp
next
  fix ws :: "string list" and s :: string
  assume n: "ws_at_start ws s \<noteq> 0"
  have "s \<noteq> []"
  proof
    assume "s = []"
    then have "ws_at_start ws s = 0"
      by (auto simp: ws_at_start_def split: option.splits dest: find_Some_iff [THEN iffD1])
    with n show False by simp
  qed
  with n show "((ws, drop (ws_at_start ws s) s), (ws, s)) \<in> measure (\<lambda>(ws, s). length s)"
    by simp
qed

declare skip_ws.simps [simp del]

text \<open>\<^verbatim>\<open>trim\<close>: the white space is removed at both ends.\<close>

definition trim :: "string \<Rightarrow> string" where
  "trim s = rev (skip_ws (map rev white_space) (rev (skip_ws white_space s)))"

definition is_digit :: "char \<Rightarrow> bool" where
  "is_digit c \<longleftrightarrow> c \<in> set ''0123456789''"

definition digit_val :: "char \<Rightarrow> int" where
  "digit_val c = of_char c - 48"

definition digits_val :: "string \<Rightarrow> int" where
  "digits_val ds = foldl (\<lambda>n c. 10 * n + digit_val c) 0 ds"

definition pow10 :: "int \<Rightarrow> rat" where
  "pow10 e = (if 0 \<le> e then 10 ^ nat e else 1 / 10 ^ nat (- e))"

text \<open>
  \<^verbatim>\<open>parseFloat\<close>: leading white space is skipped, then the longest prefix that is a
  decimal literal is read (sign, \<^verbatim>\<open>Infinity\<close> or digits with an optional fraction and an
  optional exponent) and its value rounded; NaN when there is no such prefix.
\<close>

definition parseFloat :: "string \<Rightarrow> jsnum" where
  "parseFloat input =
    (let s = skip_ws white_space input;
         neg = (take 1 s = ''-'');
         s1 = (if take 1 s = ''-'' \<or> take 1 s = ''+'' then drop 1 s else s)
     in if take 8 s1 = ''Infinity'' then (if neg then NInf else PInf)
        else
          let ip = takeWhile is_digit s1;
              r1 = dropWhile is_digit s1;
              dot = (take 1 r1 = ''.'');
              fp = (if dot then takeWhile is_digit (drop 1 r1) else []);
              r2 = (if dot then dropWhile is_digit (drop 1 r1) else r1);
              r3 = drop 1 r2;
              eneg = (take 1 r3 = ''-'');
              r4 = (if take 1 r3 = ''-'' \<or> take 1 r3 = ''+'' then drop 1 r3 else r3);
              ed = takeWhile is_digit r4;
              ex = (if (take 1 r2 = ''e'' \<or> take 1 r2 = ''E'') \<and> ed \<noteq> []
                    then (if eneg then - digits_val ed else digits_val ed)
                    else 0);
              m = of_int (digits_val (ip @ fp)) * pow10 (ex - int (length fp))
          in if ip = [] \<and> fp = [] then NaN
             else rnd (if neg then - m else m))"

section \<open>The expense collection and its persistence\<close>

text \<open>
  The \<^verbatim>\<open>amount\<close> of an expense object is the Number that \<^verbatim>\<open>parseFloat\<close> returned, or
  \<^verbatim>\<open>null\<close> once a Number that JSON cannot print has been saved and loaded again. The
  \<^verbatim>\<open>id\<close> is the integer of \<^verbatim>\<open>Date.now()\<close>.
\<close>

datatype amount_value = Num jsnum | Null

record expense =
  id' :: int
  name :: string
  amount :: amount_value
  category :: string
  date :: string
  timestamp :: string

text \<open>
  What \<^verbatim>\<open>JSON.stringify\<close> writes for an array of expense objects is kept as the sequence
  of the printed objects. A finite Number is printed so that it reads back as the same
  Number; NaN and the infinities are printed as \<^verbatim>\<open>null\<close>.
\<close>

datatype json_number = JNumber rat | JNull

record json_expense =
  json_id :: int
  json_name :: string
  json_amount :: json_number
  json_category :: string
  json_date :: string
  json_timestamp :: string

fun stringify_amount :: "amount_value \<Rightarrow> json_number" where
  "stringify_amount (Num (Fin q)) = JNumber q"
| "stringify_amount (Num x) = JNull"
| "stringify_amount Null = JNull"

fun parse_amount :: "json_number \<Rightarrow> amount_value" where
  "parse_amount (JNumber q) = Num (Fin q)"
| "parse_amount JNull = Null"

text \<open>The amounts that come back from \<^verbatim>\<open>JSON\<close> as they went in.\<close>

fun json_printable :: "amount_value \<Rightarrow> bool" where
  "json_printable (Num (Fin q)) = True"
| "json_printable (Num x) = False"
| "json_printable Null = True"

definition JSON_stringify :: "expense list \<Rightarrow> json_expense list" where
  "JSON_stringify expenses =
     map (\<lambda>exp. \<lparr>json_id = id' exp, json_name = name exp,
                   json_amount = stringify_amount (amount exp),
                   json_category = category exp, json_date = date exp,
                   json_timestamp = timestamp exp\<rparr>) expenses"

definition JSON_parse :: "json_expense list \<Rightarrow> expense list" where
  "JSON_parse data =
     map (\<lambda>j. \<lparr>id' = json_id j, name = json_name j,
                 amount = parse_amount (json_amount j),
                 category = json_category j, date = json_date j,
                 timestamp = json_timestamp j\<rparr>) data"

text \<open>
  The state is the item of \<^verbatim>\<open>localStorage\<close> under \<^verbatim>\<open>STORAGE_KEY\<close>: absent, or the text
  last written by \<^verbatim>\<open>saveExpenses\<close>.
\<close>

type_synonym storage = "json_expense list option"

definition getExpenses :: "storage \<Rightarrow> expense list" where
  "getExpenses st = (case st of None \<Rightarrow> [] | Some data \<Rightarrow> JSON_parse data)"

definition saveExpenses :: "expense list \<Rightarrow> storage" where
  "saveExpenses expenses = Some (JSON_stringify expenses)"

text \<open>
  The three readings of the clock that \<^verbatim>\<open>addExpense\<close> makes: \<^verbatim>\<open>Date.now()\<close>, and the
  \<^verbatim>\<open>toISOString()\<close> of the two \<^verbatim>\<open>new Date()\<close>.
\<close>

record clock =
  now :: int
  date_iso :: string
  timestamp_iso :: string

text \<open>\<^verbatim>\<open>getDateString\<close>, on the ISO string of its argument: the part before the first T.\<close>

definition getDateString :: "string \<Rightarrow> string" where
  "getDateString s = takeWhile (\<lambda>c. c \<noteq> CHR ''T'') s"

definition addExpense :: "clock \<Rightarrow> string \<Rightarrow> string \<Rightarrow> string \<Rightarrow> storage \<Rightarrow> expense \<times> storage" where
  "addExpense clk nm amt cat st =
    (let expenses = getExpenses st;
         expense = \<lparr>id' = now clk, name = trim nm, amount = Num (parseFloat amt),
                    category = cat, date = getDateString (date_iso clk),
                    timestamp = timestamp_iso clk\<rparr>
     in (expense, saveExpenses (expenses @ [expense])))"

definition deleteExpense :: "int \<Rightarrow> storage \<Rightarrow> storage" where
  "deleteExpense i st =
    (let expenses = getExpenses st;
         filtered = filter (\<lambda>exp. id' exp \<noteq> i) expenses
     in saveExpenses filtered)"

text \<open>
  \<^verbatim>\<open>handleFormSubmit\<close> on the three values of the form: the alert and no change, or the
  expense that \<^verbatim>\<open>addExpense\<close> returned and the new state.
\<close>

definition handleFormSubmit :: "clock \<Rightarrow> string \<Rightarrow> string \<Rightarrow> string \<Rightarrow> storage \<Rightarrow> (string + expense) \<times> storage" where
  "handleFormSubmit clk nm amt cat st =
    (if nm = [] \<or> amt = [] \<or> jsle (parseFloat amt) (Fin 0)
     then (Inl ''Please enter valid expense details'', st)
     else let (expense, st') = addExpense clk nm amt cat st in (Inr expense, st'))"

section \<open>Objects used as dictionaries\<close>

text \<open>
  \<^verbatim>\<open>categoryTotals\<close> and \<^verbatim>\<open>expensesByDate\<close> are objects created by \<^verbatim>\<open>{}\<close> and indexed by
  a string of the expense. Such an object has own properties, kept here in the order of
  their creation, and inherits the members of \<^verbatim>\<open>Object.prototype\<close>. A value read from it
  is \<^verbatim>\<open>undefined\<close>, a Number, an inherited member (a function, or the prototype itself
  for \<^verbatim>\<open>__proto__\<close>), or the string that \<^verbatim>\<open>+\<close> builds once an inherited member has been
  read: \<open>VStr p as\<close> is the text of the member named \<open>p\<close> followed by the amounts
  \<open>as\<close> in print.
\<close>

datatype jsval = Undefined | VNum jsnum | VStr string "amount_value list" | VProto string

type_synonym jsobj = "(string \<times> jsval) list"

definition object_prototype_names :: "string list" where
  "object_prototype_names =
     [''constructor'', ''hasOwnProperty'', ''isPrototypeOf'', ''propertyIsEnumerable'',
      ''toLocaleString'', ''toString'', ''valueOf'', ''__proto__'',
      ''__defineGetter__'', ''__defineSetter__'', ''__lookupGetter__'', ''__lookupSetter__'']"

text \<open>\<^verbatim>\<open>obj[k]\<close>: the own property, else the inherited member, else \<^verbatim>\<open>undefined\<close>.\<close>

definition jsobj_get :: "jsobj \<Rightarrow> string \<Rightarrow> jsval" where
  "jsobj_get obj k = (case map_of obj k of Some v \<Rightarrow> v
     | None \<Rightarrow> if k \<in> set object_prototype_names then VProto k else Undefined)"

fun own_update :: "jsobj \<Rightarrow> string \<Rightarrow> jsval \<Rightarrow> jsobj" where
  "own_update [] k v = [(k, v)]"
| "own_update ((k', v') # obj) k v =
     (if k' = k then (k, v) # obj else (k', v') # own_update obj k v)"

text \<open>
  \<^verbatim>\<open>obj[k] = v\<close> for a Number or string \<open>v\<close>: the own property is overwritten in place
  or created last; under \<^verbatim>\<open>__proto__\<close> the inherited setter is called instead, and it
  ignores a value that is not an object.
\<close>

definition jsobj_set :: "jsobj \<Rightarrow> string \<Rightarrow> jsval \<Rightarrow> jsobj" where
  "jsobj_set obj k v = (if k = ''__proto__'' then obj else own_update obj k v)"

text \<open>Truthiness, and \<^verbatim>\<open>v || 0\<close>.\<close>

fun truthy :: "jsval \<Rightarrow> bool" where
  "truthy Undefined = False"
| "truthy (VNum x) = (x \<noteq> Fin 0 \<and> x \<noteq> NaN)"
| "truthy (VStr p as) = True"
| "truthy (VProto p) = True"

definition or0 :: "jsval \<Rightarrow> jsval" where
  "or0 v = (if truthy v then v else VNum (Fin 0))"

text \<open>What an amount counts for in arithmetic: \<^verbatim>\<open>null\<close> is \<open>0\<close>.\<close>

fun amount_number :: "amount_value \<Rightarrow> jsnum" where
  "amount_number (Num x) = x"
| "amount_number Null = Fin 0"

text \<open>
  \<^verbatim>\<open>v + exp.amount\<close>: addition of Numbers; with a string, a function or an object on the
  left, concatenation of the two in print.
\<close>

fun plus_amount :: "jsval \<Rightarrow> amount_value \<Rightarrow> jsval" where
  "plus_amount (VNum x) a = VNum (jsadd x (amount_number a))"
| "plus_amount Undefined a = VNum NaN"
| "plus_amount (VStr p as) a = VStr p (as @ [a])"
| "plus_amount (VProto p) a = VStr p [a]"

text \<open>
  A value as a Number, for \<^verbatim>\<open>-\<close> and \<^verbatim>\<open>>\<close>: the strings above start with the text of
  a function or of an object, which is not a numeric literal.
\<close>

fun to_number :: "jsval \<Rightarrow> jsnum" where
  "to_number (VNum x) = x"
| "to_number v = NaN"

text \<open>
  An array index is the canonical decimal string of an integer from \<open>0\<close> to
  \<open>2^32 - 2\<close>. \<^verbatim>\<open>Object.entries\<close> lists the own properties whose key is an array index
  first, in ascending order of the index, and then the others in order of creation.
\<close>

definition is_array_index :: "string \<Rightarrow> bool" where
  "is_array_index k \<longleftrightarrow> k \<noteq> [] \<and> list_all is_digit k \<and> (k = ''0'' \<or> hd k \<noteq> CHR ''0'')
     \<and> digits_val k \<le> 4294967294"

definition Object_entries :: "jsobj \<Rightarrow> (string \<times> jsval) list" where
  "Object_entries obj =
     sort_key (\<lambda>(k, v). digits_val k) (filter (\<lambda>(k, v). is_array_index k) obj)
     @ filter (\<lambda>(k, v). \<not> is_array_index k) obj"

text \<open>
  \<^verbatim>\<open>Array.prototype.sort\<close> with a comparison function. The function says that \<open>a\<close> goes
  before \<open>b\<close> where its value is negative and after \<open>b\<close> where it is positive; a NaN
  counts as \<open>0\<close>. It is a consistent comparison for the elements when, seen so, it
  divides them into classes of equals that are totally ordered: the conditions of the
  language on \<^verbatim>\<open>a <CF b\<close>, \<^verbatim>\<open>a =CF b\<close> and \<^verbatim>\<open>a >CF b\<close>.
\<close>

definition goes_before :: "('a \<Rightarrow> 'a \<Rightarrow> jsnum) \<Rightarrow> 'a \<Rightarrow> 'a \<Rightarrow> bool" where
  "goes_before cmp a b = jslt (cmp a b) (Fin 0)"

definition goes_after :: "('a \<Rightarrow> 'a \<Rightarrow> jsnum) \<Rightarrow> 'a \<Rightarrow> 'a \<Rightarrow> bool" where
  "goes_after cmp a b = jsgt (cmp a b) (Fin 0)"

definition ties_with :: "('a \<Rightarrow> 'a \<Rightarrow> jsnum) \<Rightarrow> 'a \<Rightarrow> 'a \<Rightarrow> bool" where
  "ties_with cmp a b \<longleftrightarrow> \<not> goes_before cmp a b \<and> \<not> goes_after cmp a b"

definition consistent_on :: "('a \<Rightarrow> 'a \<Rightarrow> jsnum) \<Rightarrow> 'a list \<Rightarrow> bool" where
  "consistent_on cmp as \<longleftrightarrow>
     (\<forall>a \<in> set as. \<forall>b \<in> set as. \<forall>c \<in> set as.
        ties_with cmp a a
        \<and> (ties_with cmp a b \<longrightarrow> ties_with cmp b a)
        \<and> (ties_with cmp a b \<and> ties_with cmp b c \<longrightarrow> ties_with cmp a c)
        \<and> (goes_before cmp a b \<and> goes_before cmp b c \<longrightarrow> goes_before cmp a c)
        \<and> (goes_after cmp a b \<and> goes_after cmp b c \<longrightarrow> goes_after cmp a c))"

text \<open>
  The stable sort: \<open>a\<close> is put after the elements that follow it only as far as it
  goes after them. For a consistent comparison this is the one result the language
  allows (sorted, equals in their former order).
\<close>

fun sort_insert :: "('a \<Rightarrow> 'a \<Rightarrow> jsnum) \<Rightarrow> 'a \<Rightarrow> 'a list \<Rightarrow> 'a list" where
  "sort_insert cmp a [] = [a]"
| "sort_insert cmp a (b # bs) =
     (if goes_after cmp a b then b # sort_insert cmp a bs else a # b # bs)"

definition stable_sort :: "('a \<Rightarrow> 'a \<Rightarrow> jsnum) \<Rightarrow> 'a list \<Rightarrow> 'a list" where
  "stable_sort cmp as = foldr (sort_insert cmp) as []"

text \<open>
  The sort of the engine is a parameter of whatever sorts. What is known of it: it
  returns a rearrangement of the array, and for a consistent comparison the stable
  sort; where the comparison is not consistent (a total that is a string compares as
  NaN with every other), the language leaves the order to the implementation.
\<close>

type_synonym entry = "string \<times> jsval"

type_synonym sorter = "(entry \<Rightarrow> entry \<Rightarrow> jsnum) \<Rightarrow> entry list \<Rightarrow> entry list"

definition conforming_sort :: "sorter \<Rightarrow> bool" where
  "conforming_sort srt \<longleftrightarrow>
     (\<forall>cmp as. mset (srt cmp as) = mset as
        \<and> (consistent_on cmp as \<longrightarrow> srt cmp as = stable_sort cmp as))"

section \<open>Aggregation\<close>

definition calculateTotal :: "expense list \<Rightarrow> jsnum" where
  "calculateTotal expenses =
     foldl (\<lambda>sum exp. jsadd sum (amount_number (amount exp))) (Fin 0) expenses"

text \<open>
  \<^verbatim>\<open>renderMonthlySummary\<close>, from the expenses of the month, the day of the month and the
  number of days in the month that it reads, to the three figures it displays.
\<close>

record monthly_summary =
  monthTotal :: jsnum
  avgDaily :: jsnum
  projected :: jsnum

definition renderMonthlySummary :: "expense list \<Rightarrow> int \<Rightarrow> int \<Rightarrow> monthly_summary" where
  "renderMonthlySummary monthExpenses currentDay daysInMonth =
    (let total = calculateTotal monthExpenses;
         avg = (if 0 < currentDay then jsdiv total (jsint currentDay) else Fin 0);
         proj = jsmul avg (jsint daysInMonth)
     in \<lparr>monthTotal = total, avgDaily = avg, projected = proj\<rparr>)"

text \<open>
  The \<^verbatim>\<open>forEach\<close> loop that fills \<^verbatim>\<open>categoryTotals\<close> (in \<^verbatim>\<open>renderCategoryBreakdown\<close> and
  again in \<^verbatim>\<open>renderInsights\<close>), and the sorted \<^verbatim>\<open>categories\<close>.
\<close>

definition categoryTotals :: "expense list \<Rightarrow> jsobj" where
  "categoryTotals monthExpenses =
     foldl (\<lambda>obj exp. jsobj_set obj (category exp)
               (plus_amount (or0 (jsobj_get obj (category exp))) (amount exp)))
       [] monthExpenses"

definition by_total_desc :: "entry \<Rightarrow> entry \<Rightarrow> jsnum" where
  "by_total_desc a b = jssub (to_number (snd b)) (to_number (snd a))"

definition categories :: "sorter \<Rightarrow> expense list \<Rightarrow> entry list" where
  "categories srt monthExpenses = srt by_total_desc (Object_entries (categoryTotals monthExpenses))"

text \<open>
  \<^verbatim>\<open>renderCategoryBreakdown\<close>, up to the list it renders: nothing but the empty-state
  paragraph for an empty month; else each category with its total and whether it is
  marked as the highest. \<^verbatim>\<open>categories[0][0]\<close> throws when \<^verbatim>\<open>categories\<close> is empty.
\<close>

datatype js_error = TypeError

definition renderCategoryBreakdown :: "sorter \<Rightarrow> expense list \<Rightarrow> js_error + (string \<times> jsval \<times> bool) list" where
  "renderCategoryBreakdown srt monthExpenses =
    (if length monthExpenses = 0 then Inr []
     else case categories srt monthExpenses of
            [] \<Rightarrow> Inl TypeError
          | c # cs \<Rightarrow> Inr (map (\<lambda>(cat, total). (cat, total, cat = fst c)) (c # cs)))"

section \<open>Insights\<close>

definition expensesByDate :: "expense list \<Rightarrow> jsobj" where
  "expensesByDate monthExpenses =
     foldl (\<lambda>obj exp. jsobj_set obj (date exp)
               (plus_amount (or0 (jsobj_get obj (date exp))) (amount exp)))
       [] monthExpenses"

definition msg_above_average :: string where
  "msg_above_average = ''You spent more than your daily average today.''"

definition msg_highest :: "string \<Rightarrow> string" where
  "msg_highest cat = cat @ '' expenses are your highest spending category.''"

definition msg_multiple_days :: string where
  "msg_multiple_days = ''High spending detected on multiple days this month.''"

text \<open>The rupee sign is the three bytes of its UTF-8 encoding.\<close>

definition msg_threshold :: string where
  "msg_threshold = ''Today'' @ [CHR 0x27] @ ''s spending exceeds '' @ [CHR 0xE2, CHR 0x82, CHR 0xB9] @ ''500.''"

definition msg_under_control :: string where
  "msg_under_control = ''Your spending is under control. Keep tracking!''"

definition msg_no_insights :: string where
  \<open>msg_no_insights = ''<p class="empty-state">No insights yet. Start tracking expenses!</p>''\<close>

text \<open>
  The array \<^verbatim>\<open>insights\<close> of \<^verbatim>\<open>renderInsights\<close> when the month is not empty, from the
  expenses of today, the expenses of the month and the day of the month that it reads.
\<close>

definition insights :: "sorter \<Rightarrow> expense list \<Rightarrow> expense list \<Rightarrow> int \<Rightarrow> string list" where
  "insights srt todayExpenses monthExpenses currentDay =
    (let todayTotal = calculateTotal todayExpenses;
         monthTotal = calculateTotal monthExpenses;
         avgDaily = (if 0 < currentDay then jsdiv monthTotal (jsint currentDay) else Fin 0);
         ins1 = (if jsgt todayTotal avgDaily \<and> jsgt avgDaily (Fin 0)
                 then [msg_above_average] else []);
         cats = categories srt monthExpenses;
         ins2 = (if length cats > 0 then ins1 @ [msg_highest (fst (cats ! 0))] else ins1);
         highSpendingDays = filter (\<lambda>(date, total).
             jsgt (to_number total) (jsmul avgDaily (Fin (3 / 2))))
           (Object_entries (expensesByDate monthExpenses));
         ins3 = (if length highSpendingDays \<ge> 3 then ins2 @ [msg_multiple_days] else ins2);
         ins4 = (if jsgt todayTotal (Fin 500) then ins3 @ [msg_threshold] else ins3);
         ins5 = (if length ins4 = 0 then ins4 @ [msg_under_control] else ins4)
     in ins5)"

text \<open>\<^verbatim>\<open>renderInsights\<close>: the text it sets as \<^verbatim>\<open>innerHTML\<close> of the container.\<close>

definition renderInsights :: "sorter \<Rightarrow> expense list \<Rightarrow> expense list \<Rightarrow> int \<Rightarrow> string" where
  \<open>renderInsights srt todayExpenses monthExpenses currentDay =
    (if length monthExpenses = 0 then msg_no_insights
     else concat (map (\<lambda>insight. ''<div class="insight-item">'' @ insight @ ''</div>'')
                   (insights srt todayExpenses monthExpenses currentDay)))\<close>



section \<open>The operations as the specification words them\<close>

text \<open>
  \<^verbatim>\<open>dailyAverage\<close> of the specification: the total of the month divided by the day of
  the month when that is positive, else \<open>0\<close>.
\<close>

definition dailyAverage :: "expense list \<Rightarrow> int \<Rightarrow> jsnum" where
  "dailyAverage monthExpenses dayOfMonth =
     (if 0 < dayOfMonth then jsdiv (calculateTotal monthExpenses) (jsint dayOfMonth) else Fin 0)"

text \<open>
  \<^verbatim>\<open>categoryBreakdown\<close> of the specification: the categories in the order in which the
  input first shows them, each with the total of its expenses, then sorted in
  descending order of the totals, the categories of equal total staying in that order.
  \<^verbatim>\<open>highestCategory\<close> is the category of its first entry.
\<close>

primrec first_seen :: "'a list \<Rightarrow> 'a list" where
  "first_seen [] = []"
| "first_seen (x # xs) = x # filter (\<lambda>y. y \<noteq> x) (first_seen xs)"

definition category_groups :: "expense list \<Rightarrow> entry list" where
  "category_groups expenses =
     map (\<lambda>c. (c, VNum (calculateTotal (filter (\<lambda>exp. category exp = c) expenses))))
       (first_seen (map category expenses))"

fun insert_desc :: "entry \<Rightarrow> entry list \<Rightarrow> entry list" where
  "insert_desc p [] = [p]"
| "insert_desc p (r # rs) =
     (if jslt (to_number (snd p)) (to_number (snd r)) then r # insert_desc p rs else p # r # rs)"

definition categoryBreakdown :: "expense list \<Rightarrow> entry list" where
  "categoryBreakdown expenses = foldr insert_desc (category_groups expenses) []"

definition highestCategory :: "entry list \<Rightarrow> string option" where
  "highestCategory b = (case b of [] \<Rightarrow> None | p # ps \<Rightarrow> Some (fst p))"

text \<open>The total of each day of the month, the days in the order of first appearance.\<close>

definition day_totals :: "expense list \<Rightarrow> (string \<times> jsnum) list" where
  "day_totals expenses =
     map (\<lambda>d. (d, calculateTotal (filter (\<lambda>exp. date exp = d) expenses)))
       (first_seen (map date expenses))"

text \<open>
  Rules 2 to 5 of \<^verbatim>\<open>deriveInsights\<close> in the specification, each as the list of what it
  contributes (nothing, or one insight): today above the daily average, itself
  positive; the highest category of the breakdown; three days or more whose total is
  above one and a half times the daily average; today above the threshold of 500. Then
  \<^verbatim>\<open>deriveInsights\<close> for a month that is not empty: what the four rules contribute, in
  that order, or the fallback insight alone when they contribute nothing.
\<close>

definition rule_above_average :: "expense list \<Rightarrow> expense list \<Rightarrow> int \<Rightarrow> string list" where
  "rule_above_average todayExpenses monthExpenses dayOfMonth =
     (if jsgt (calculateTotal todayExpenses) (dailyAverage monthExpenses dayOfMonth)
         \<and> jsgt (dailyAverage monthExpenses dayOfMonth) (Fin 0)
      then [msg_above_average] else [])"

definition rule_highest_category :: "expense list \<Rightarrow> string list" where
  "rule_highest_category monthExpenses =
     (case highestCategory (categoryBreakdown monthExpenses) of
        None \<Rightarrow> [] | Some c \<Rightarrow> [msg_highest c])"

definition rule_multiple_days :: "expense list \<Rightarrow> int \<Rightarrow> string list" where
  "rule_multiple_days monthExpenses dayOfMonth =
     (if 3 \<le> length (filter (\<lambda>(d, total).
            jsgt total (jsmul (dailyAverage monthExpenses dayOfMonth) (Fin (3 / 2))))
          (day_totals monthExpenses))
      then [msg_multiple_days] else [])"

definition rule_threshold :: "expense list \<Rightarrow> string list" where
  "rule_threshold todayExpenses =
     (if jsgt (calculateTotal todayExpenses) (Fin 500) then [msg_threshold] else [])"

definition deriveInsights :: "expense list \<Rightarrow> expense list \<Rightarrow> int \<Rightarrow> string list" where
  "deriveInsights todayExpenses monthExpenses dayOfMonth =
     (let rs = rule_above_average todayExpenses monthExpenses dayOfMonth
               @ rule_highest_category monthExpenses
               @ rule_multiple_days monthExpenses dayOfMonth
               @ rule_threshold todayExpenses
      in if rs = [] then [msg_under_control] else rs)"

section \<open>Domains of the properties\<close>

text \<open>
  The inputs on which the dictionary behaves as a plain table. An ordinary key is not the
  name of a member of \<^verbatim>\<open>Object.prototype\<close>; a plain key is moreover not an array index.
  The amounts are those that \<^verbatim>\<open>getExpenses\<close> returns: finite Numbers and \<^verbatim>\<open>null\<close>
  (\<open>json_printable\<close> above).
\<close>

definition ordinary_key :: "string \<Rightarrow> bool" where
  "ordinary_key k \<longleftrightarrow> k \<notin> set object_prototype_names"

definition plain_key :: "string \<Rightarrow> bool" where
  "plain_key k \<longleftrightarrow> ordinary_key k \<and> \<not> is_array_index k"

text \<open>
  A sequence of expenses in whole units: every amount is an integer (\<^verbatim>\<open>null\<close> counting
  for \<open>0\<close>), and the absolute values add up to \<open>2^53\<close> at most, so that no sum of
  them is rounded.
\<close>

fun amount_rat :: "amount_value \<Rightarrow> rat" where
  "amount_rat (Num (Fin q)) = q"
| "amount_rat a = 0"

fun is_whole :: "amount_value \<Rightarrow> bool" where
  "is_whole (Num (Fin q)) = (of_int \<lfloor>q\<rfloor> = q)"
| "is_whole (Num x) = False"
| "is_whole Null = True"

definition whole_units :: "expense list \<Rightarrow> bool" where
  "whole_units expenses \<longleftrightarrow> list_all (\<lambda>exp. is_whole (amount exp)) expenses
     \<and> (\<Sum>exp\<leftarrow>expenses. \<bar>amount_rat (amount exp)\<bar>) \<le> 9007199254740992"

text \<open>
  Every finite binary64 value is an integer multiple of \<open>2^(-1074)\<close>, the least
  positive one. A positive Number is \<^verbatim>\<open>Infinity\<close> or a positive value on that grid; a
  Number of the grid is an infinity or a value on it: any Number but NaN.
\<close>

definition on_grid :: "rat \<Rightarrow> bool" where
  "on_grid q \<longleftrightarrow> (\<exists>m::int. q = of_int m * pow2 (- 1074))"

definition positive_number :: "jsnum \<Rightarrow> bool" where
  "positive_number x \<longleftrightarrow> x = PInf \<or> (\<exists>v. x = Fin v \<and> 0 < v \<and> on_grid v)"

definition grid_number :: "jsnum \<Rightarrow> bool" where
  "grid_number x \<longleftrightarrow> x = PInf \<or> x = NInf \<or> (\<exists>v. x = Fin v \<and> on_grid v)"

section \<open>Properties of the store\<close>

lemma parse_stringify_parse_amount: "parse_amount (stringify_amount (parse_amount j)) = parse_amount j"
  by (cases j) simp_all

lemma stringify_parse_amount: "stringify_amount (parse_amount j) = j"
  by (cases j) simp_all

lemma JSON_stringify_parse: "JSON_stringify (JSON_parse data) = data"
  by (induction data) (simp_all add: JSON_stringify_def JSON_parse_def stringify_parse_amount)

lemma JSON_parse_filter: "JSON_parse (filter (\<lambda>j. P (json_id j)) data) = filter (\<lambda>exp. P (id' exp)) (JSON_parse data)"
  by (induction data) (simp_all add: JSON_parse_def)

lemma JSON_stringify_filter:
  "JSON_stringify (filter (\<lambda>exp. P (id' exp)) expenses) = filter (\<lambda>j. P (json_id j)) (JSON_stringify expenses)"
  by (induction expenses) (simp_all add: JSON_stringify_def)

lemma getExpenses_save_get:
  "getExpenses (saveExpenses (filter (\<lambda>exp. P (id' exp)) (getExpenses st))) = filter (\<lambda>exp. P (id' exp)) (getExpenses st)"
proof (cases st)
  case None
  then show ?thesis
    by (simp add: getExpenses_def saveExpenses_def JSON_stringify_def JSON_parse_def)
next
  case (Some data)
  then show ?thesis
    by (simp add: getExpenses_def saveExpenses_def JSON_stringify_filter JSON_stringify_parse
        JSON_parse_filter)
qed

text \<open>
  Claim C8. After \<^verbatim>\<open>deleteExpense\<close> the collection is the former one without the records
  whose id is the given one; it is the same collection when no record has that id; and
  deleting the same id a second time leaves the state as the first deletion left it.
\<close>

theorem deleteExpense_removes_matching:
  "getExpenses (deleteExpense i st) = filter (\<lambda>exp. id' exp \<noteq> i) (getExpenses st)
   \<and> ((\<forall>exp \<in> set (getExpenses st). id' exp \<noteq> i) \<longrightarrow>
        getExpenses (deleteExpense i st) = getExpenses st)
   \<and> deleteExpense i (deleteExpense i st) = deleteExpense i st"
proof -
  have del: "getExpenses (deleteExpense i st) = filter (\<lambda>exp. id' exp \<noteq> i) (getExpenses st)" for st
    unfolding deleteExpense_def Let_def by (rule getExpenses_save_get)
  have noop: "(\<forall>exp \<in> set (getExpenses st). id' exp \<noteq> i) \<longrightarrow>
        getExpenses (deleteExpense i st) = getExpenses st"
    by (simp add: del)
  have "deleteExpense i (deleteExpense i st) = saveExpenses (filter (\<lambda>exp. id' exp \<noteq> i) (getExpenses (deleteExpense i st)))"
    by (simp add: deleteExpense_def)
  also have "\<dots> = saveExpenses (filter (\<lambda>exp. id' exp \<noteq> i) (getExpenses st))"
    by (simp add: del)
  also have "\<dots> = deleteExpense i st"
    by (simp add: deleteExpense_def)
  finally show ?thesis using del noop by blast
qed

theorem deleteExpense_removes_matching_witness:
  "list_all (\<lambda>exp. id' exp \<noteq> 7)
      (getExpenses (Some [\<lparr>json_id = 5, json_name = ''tea'', json_amount = JNumber 10,
        json_category = ''food'', json_date = ''2026-11-03'', json_timestamp = ''2026-11-03T10:40:00.000Z''\<rparr>]))
   \<and> getExpenses (deleteExpense 7 (Some [\<lparr>json_id = 5, json_name = ''tea'', json_amount = JNumber 10,
        json_category = ''food'', json_date = ''2026-11-03'', json_timestamp = ''2026-11-03T10:40:00.000Z''\<rparr>]))
     = getExpenses (Some [\<lparr>json_id = 5, json_name = ''tea'', json_amount = JNumber 10,
        json_category = ''food'', json_date = ''2026-11-03'', json_timestamp = ''2026-11-03T10:40:00.000Z''\<rparr>])
   \<and> getExpenses (deleteExpense 5 (Some [\<lparr>json_id = 5, json_name = ''tea'', json_amount = JNumber 10,
        json_category = ''food'', json_date = ''2026-11-03'', json_timestamp = ''2026-11-03T10:40:00.000Z''\<rparr>])) = []"
proof -
  let ?st = "Some [\<lparr>json_id = 5, json_name = ''tea'', json_amount = JNumber 10,
        json_category = ''food'', json_date = ''2026-11-03'', json_timestamp = ''2026-11-03T10:40:00.000Z''\<rparr>]"
  have h: "\<forall>exp \<in> set (getExpenses ?st). id' exp \<noteq> 7"
    by (simp add: getExpenses_def JSON_parse_def)
  have "getExpenses (deleteExpense 7 ?st) = getExpenses ?st"
    using deleteExpense_removes_matching [of 7 ?st] h by blast
  moreover have "getExpenses (deleteExpense 5 ?st) = []"
    using deleteExpense_removes_matching [of 5 ?st] by (simp add: getExpenses_def JSON_parse_def)
  ultimately show ?thesis using h by (simp add: list_all_iff)
qed

lemma parse_stringify_amount: "json_printable a \<Longrightarrow> parse_amount (stringify_amount a) = a"
  by (induction a rule: json_printable.induct) simp_all

lemma JSON_parse_stringify:
  "\<forall>exp \<in> set expenses. json_printable (amount exp) \<Longrightarrow> JSON_parse (JSON_stringify expenses) = expenses"
  by (induction expenses) (simp_all add: JSON_parse_def JSON_stringify_def parse_stringify_amount)

text \<open>
  Claim C9, amended. A collection in which every amount is a finite Number (or \<^verbatim>\<open>null\<close>)
  is loaded back as it was saved: same records, same fields, same order. An amount that
  is NaN or an infinity comes back as \<^verbatim>\<open>null\<close>, as the counterexample shows.
\<close>

theorem save_load_roundtrip:
  "\<forall>exp \<in> set expenses. json_printable (amount exp) \<Longrightarrow> getExpenses (saveExpenses expenses) = expenses"
  by (simp add: getExpenses_def saveExpenses_def JSON_parse_stringify)

theorem save_load_roundtrip_witness:
  "list_all (\<lambda>exp. json_printable (amount exp))
      [\<lparr>id' = 5, name = ''tea'', amount = Num (Fin 10), category = ''food'',
        date = ''2026-11-03'', timestamp = ''2026-11-03T10:40:00.000Z''\<rparr>]
   \<and> getExpenses (saveExpenses [\<lparr>id' = 5, name = ''tea'', amount = Num (Fin 10), category = ''food'',
        date = ''2026-11-03'', timestamp = ''2026-11-03T10:40:00.000Z''\<rparr>])
     = [\<lparr>id' = 5, name = ''tea'', amount = Num (Fin 10), category = ''food'',
        date = ''2026-11-03'', timestamp = ''2026-11-03T10:40:00.000Z''\<rparr>]"
proof -
  let ?c = "[\<lparr>id' = 5, name = ''tea'', amount = Num (Fin 10), category = ''food'',
        date = ''2026-11-03'', timestamp = ''2026-11-03T10:40:00.000Z''\<rparr>]"
  have h: "\<forall>exp \<in> set ?c. json_printable (amount exp)" by simp
  show ?thesis using h save_load_roundtrip [OF h] by (simp add: list_all_iff)
qed

theorem save_load_roundtrip_counterexample:
  "getExpenses (saveExpenses [\<lparr>id' = 5, name = ''tea'', amount = Num NaN, category = ''food'',
        date = ''2026-11-03'', timestamp = ''2026-11-03T10:40:00.000Z''\<rparr>])
   \<noteq> [\<lparr>id' = 5, name = ''tea'', amount = Num NaN, category = ''food'',
        date = ''2026-11-03'', timestamp = ''2026-11-03T10:40:00.000Z''\<rparr>]"
  by (simp add: getExpenses_def saveExpenses_def JSON_parse_def JSON_stringify_def)

lemma handleFormSubmit_rejects:
  "nm = [] \<or> amt = [] \<or> jsle (parseFloat amt) (Fin 0) \<Longrightarrow>
     handleFormSubmit clk nm amt cat st = (Inl ''Please enter valid expense details'', st)"
  by (simp add: handleFormSubmit_def)

lemma handleFormSubmit_accepts:
  "\<not> (nm = [] \<or> amt = [] \<or> jsle (parseFloat amt) (Fin 0)) \<Longrightarrow>
     handleFormSubmit clk nm amt cat st
       = (Inr (fst (addExpense clk nm amt cat st)), snd (addExpense clk nm amt cat st))"
  by (simp add: handleFormSubmit_def split: prod.splits)

text \<open>
  Claim C1. The claim asks that an expense be refused exactly when its name is empty
  after trimming or its amount is not a positive number. \<^verbatim>\<open>handleFormSubmit\<close> tests the
  name before it is trimmed, and a NaN is not \<^verbatim>\<open><= 0\<close>: a name of three spaces with the
  amount \<^verbatim>\<open>5\<close> is accepted and stored with the empty name, and the amount \<^verbatim>\<open>abc\<close> is
  accepted and stored as NaN (\<^verbatim>\<open>null\<close> in the saved text).
\<close>

theorem handleFormSubmit_accepts_blank_name_and_NaN:
  "trim ''   '' = []
   \<and> handleFormSubmit \<lparr>now = 1793702400000, date_iso = ''2026-11-03T10:40:00.000Z'',
          timestamp_iso = ''2026-11-03T10:40:00.000Z''\<rparr> ''   '' ''5'' ''food'' None
     = (Inr \<lparr>id' = 1793702400000, name = [], amount = Num (Fin 5), category = ''food'',
             date = ''2026-11-03'', timestamp = ''2026-11-03T10:40:00.000Z''\<rparr>,
        Some [\<lparr>json_id = 1793702400000, json_name = [], json_amount = JNumber 5,
               json_category = ''food'', json_date = ''2026-11-03'',
               json_timestamp = ''2026-11-03T10:40:00.000Z''\<rparr>])
   \<and> parseFloat ''abc'' = NaN
   \<and> handleFormSubmit \<lparr>now = 1793702400000, date_iso = ''2026-11-03T10:40:00.000Z'',
          timestamp_iso = ''2026-11-03T10:40:00.000Z''\<rparr> ''tea'' ''abc'' ''food'' None
     = (Inr \<lparr>id' = 1793702400000, name = ''tea'', amount = Num NaN, category = ''food'',
             date = ''2026-11-03'', timestamp = ''2026-11-03T10:40:00.000Z''\<rparr>,
        Some [\<lparr>json_id = 1793702400000, json_name = ''tea'', json_amount = JNull,
               json_category = ''food'', json_date = ''2026-11-03'',
               json_timestamp = ''2026-11-03T10:40:00.000Z''\<rparr>])"
proof -
  have p5: "parseFloat ''5'' = Fin 5" by code_simp
  have pabc: "parseFloat ''abc'' = NaN" by code_simp
  have t1: "trim ''   '' = []" by code_simp
  have t2: "trim ''tea'' = ''tea''" by code_simp
  have d: "getDateString ''2026-11-03T10:40:00.000Z'' = ''2026-11-03''"
    by (simp add: getDateString_def)
  show ?thesis
    by (simp add: handleFormSubmit_def addExpense_def p5 pabc t1 t2 d jsle_def getExpenses_def
        saveExpenses_def JSON_stringify_def)
qed

lemma getExpenses_None: "getExpenses None = []"
  by (simp add: getExpenses_def)

lemma JSON_parse_append: "JSON_parse (xs @ ys) = JSON_parse xs @ JSON_parse ys"
  by (simp add: JSON_parse_def)

lemma JSON_stringify_append: "JSON_stringify (xs @ ys) = JSON_stringify xs @ JSON_stringify ys"
  by (simp add: JSON_stringify_def)

lemma getExpenses_addExpense:
  "getExpenses (snd (addExpense clk nm amt cat st))
     = getExpenses st @ JSON_parse (JSON_stringify [fst (addExpense clk nm amt cat st)])"
proof (cases st)
  case None
  then show ?thesis
    by (simp add: addExpense_def getExpenses_def saveExpenses_def Let_def)
next
  case (Some data)
  then show ?thesis
    by (simp add: addExpense_def getExpenses_def saveExpenses_def JSON_stringify_append
        JSON_parse_append JSON_stringify_parse Let_def)
qed

lemma getExpenses_addExpense_ids:
  "map id' (getExpenses (snd (addExpense clk nm amt cat st))) = map id' (getExpenses st) @ [now clk]"
  by (cases st)
     (simp_all add: addExpense_def getExpenses_def saveExpenses_def JSON_stringify_def
        JSON_parse_def comp_def)

text \<open>
  Claim C2. The claim asks that the ids of the records be distinct after any sequence
  of additions. The id is the reading of \<^verbatim>\<open>Date.now()\<close>: two additions within the same
  millisecond give two records with the same id.
\<close>

theorem addExpense_same_millisecond_same_id:
  "map id' (getExpenses (snd (addExpense
      \<lparr>now = 1793702400000, date_iso = ''2026-11-03T10:40:00.000Z'',
       timestamp_iso = ''2026-11-03T10:40:00.000Z''\<rparr> ''bus'' ''20'' ''travel''
      (snd (addExpense
        \<lparr>now = 1793702400000, date_iso = ''2026-11-03T10:40:00.000Z'',
         timestamp_iso = ''2026-11-03T10:40:00.000Z''\<rparr> ''tea'' ''10'' ''food'' None)))))
     = [1793702400000, 1793702400000]
   \<and> \<not> distinct (map id' (getExpenses (snd (addExpense
      \<lparr>now = 1793702400000, date_iso = ''2026-11-03T10:40:00.000Z'',
       timestamp_iso = ''2026-11-03T10:40:00.000Z''\<rparr> ''bus'' ''20'' ''travel''
      (snd (addExpense
        \<lparr>now = 1793702400000, date_iso = ''2026-11-03T10:40:00.000Z'',
         timestamp_iso = ''2026-11-03T10:40:00.000Z''\<rparr> ''tea'' ''10'' ''food'' None))))))"
  by (simp add: getExpenses_addExpense_ids getExpenses_None)

section \<open>Properties of the insights\<close>

text \<open>
  Claim C4. With no expense in the month, \<^verbatim>\<open>renderInsights\<close> shows the one paragraph that
  says there are no insights yet, whatever the expenses of today and the day of the
  month: no other rule is evaluated.
\<close>

theorem renderInsights_empty_month:
  \<open>renderInsights srt todayExpenses [] currentDay
     = ''<p class="empty-state">No insights yet. Start tracking expenses!</p>''\<close>
  by (simp add: renderInsights_def msg_no_insights_def)

section \<open>Properties of rounding\<close>

lemma pow2_powi: "pow2 e = 2 powi e"
  by (simp add: pow2_def power_int_def field_simps)

lemma pow2_pos [simp]: "0 < pow2 e"
  by (simp add: pow2_powi)

lemma pow2_add: "pow2 (x + y) = pow2 x * pow2 y"
  by (simp add: pow2_powi power_int_add)

lemma pow2_diff: "pow2 (x - y) = pow2 x / pow2 y"
  by (simp add: pow2_powi power_int_diff)

lemma pow2_less_iff [simp]: "pow2 x < pow2 y \<longleftrightarrow> x < y"
proof
  assume "x < y"
  then show "pow2 x < pow2 y"
    unfolding pow2_powi by (intro power_int_strict_increasing) simp_all
next
  assume l: "pow2 x < pow2 y"
  show "x < y"
  proof (rule ccontr)
    assume "\<not> x < y"
    then have "y \<le> x" by simp
    then have "pow2 y \<le> pow2 x"
      unfolding pow2_powi by (intro power_int_increasing) simp_all
    with l show False by simp
  qed
qed

lemma pow2_le_iff [simp]: "pow2 x \<le> pow2 y \<longleftrightarrow> x \<le> y"
  using pow2_less_iff [of y x] by (simp only: not_less [symmetric])

lemma pow2_nat: "0 \<le> e \<Longrightarrow> pow2 e = 2 ^ nat e"
  by (simp add: pow2_def)

lemma pow2_0 [simp]: "pow2 0 = 1"
  by (simp add: pow2_def)

lemma ilog2_bounds:
  assumes "0 < a"
  shows "pow2 (ilog2 a) \<le> a" and "a < pow2 (ilog2 a + 1)"
proof -
  obtain p q where pq: "quotient_of a = (p, q)" by (cases "quotient_of a")
  have q: "0 < q" using quotient_of_denom_pos [OF pq] .
  have a: "a = of_int p / of_int q" using quotient_of_div [OF pq] .
  have p: "0 < p" using assms q by (simp add: a zero_less_divide_iff)
  define bp bq where "bp = bitlen p" and "bq = bitlen q"
  have bp1: "1 \<le> bp" and bq1: "1 \<le> bq"
    using p q bitlen_eq_zero_iff [of p] bitlen_eq_zero_iff [of q] bitlen_nonneg [of p] bitlen_nonneg [of q]
    unfolding bp_def bq_def by linarith+
  have "(2::int) ^ nat (bp - 1) \<le> p" and "p < 2 ^ nat bp"
    using bitlen_bounds [OF p] unfolding bp_def by auto
  then have "(of_int ((2::int) ^ nat (bp - 1)) :: rat) \<le> of_int p" and "(of_int p :: rat) < of_int (2 ^ nat bp)"
    by (simp_all only: of_int_le_iff of_int_less_iff)
  then have pb: "pow2 (bp - 1) \<le> of_int p" "of_int p < pow2 bp"
    using bp1 by (simp_all add: pow2_nat)
  have "(2::int) ^ nat (bq - 1) \<le> q" and "q < 2 ^ nat bq"
    using bitlen_bounds [OF q] unfolding bq_def by auto
  then have "(of_int ((2::int) ^ nat (bq - 1)) :: rat) \<le> of_int q" and "(of_int q :: rat) < of_int (2 ^ nat bq)"
    by (simp_all only: of_int_le_iff of_int_less_iff)
  then have qb: "pow2 (bq - 1) \<le> of_int q" "of_int q < pow2 bq"
    using bq1 by (simp_all add: pow2_nat)
  have q': "(0::rat) < of_int q" using q by simp
  have lo: "pow2 (bp - bq - 1) \<le> a"
  proof -
    have "pow2 (bp - bq - 1) * of_int q \<le> pow2 (bp - bq - 1) * pow2 bq"
      using qb(2) by (simp add: less_imp_le)
    also have "\<dots> = pow2 (bp - 1)" by (simp add: pow2_add [symmetric])
    also have "\<dots> \<le> of_int p" by (rule pb(1))
    finally show ?thesis using q' by (simp add: a pos_le_divide_eq)
  qed
  have hi: "a < pow2 (bp - bq + 1)"
  proof -
    have "of_int p < pow2 bp" by (rule pb(2))
    also have "\<dots> = pow2 (bp - bq + 1) * pow2 (bq - 1)" by (simp add: pow2_add [symmetric])
    also have "\<dots> \<le> pow2 (bp - bq + 1) * of_int q"
      using qb(1) by simp
    finally show ?thesis using q' by (simp add: a pos_divide_less_eq)
  qed
  have il: "ilog2 a = (if pow2 (bp - bq) \<le> a then bp - bq else bp - bq - 1)"
    by (simp add: ilog2_def pq bp_def bq_def Let_def)
  show "pow2 (ilog2 a) \<le> a" using lo by (simp add: il)
  show "a < pow2 (ilog2 a + 1)" using hi by (simp add: il not_le)
qed

lemma round_half_even_of_int [simp]: "round_half_even (of_int j) = j"
  by (simp add: round_half_even_def)

lemma rnd_nonzero:
  assumes "q \<noteq> 0" and "e = max (ilog2 \<bar>q\<bar>) (- 1022)"
    and "n = round_half_even (\<bar>q\<bar> / pow2 (e - 52))"
  shows "rnd q = (if 1023 < e \<or> (e = 1023 \<and> n = 9007199254740992)
                  then (if 0 < q then PInf else NInf)
                  else Fin (if 0 < q then of_int n * pow2 (e - 52) else - (of_int n * pow2 (e - 52))))"
proof -
  have "rnd q = (let a = \<bar>q\<bar>; e = max (ilog2 a) (- 1022); ulp = pow2 (e - 52);
                     n = round_half_even (a / ulp)
     in if 1023 < e \<or> (e = 1023 \<and> n = 9007199254740992)
        then (if 0 < q then PInf else NInf)
        else Fin (if 0 < q then of_int n * ulp else - (of_int n * ulp)))"
    using assms(1) by (simp only: rnd_def if_False)
  then show ?thesis
    unfolding Let_def assms(3) assms(2) .
qed

lemma rnd_of_int:
  assumes "\<bar>k\<bar> \<le> 9007199254740992"
  shows "rnd (of_int k) = Fin (of_int k)"
proof (cases "k = 0")
  case True
  then show ?thesis by (simp add: rnd_def)
next
  case False
  define a :: rat where "a = \<bar>of_int k\<bar>"
  have "1 \<le> \<bar>k\<bar>" using False by simp
  then have "(of_int 1 :: rat) \<le> of_int \<bar>k\<bar>" by (simp only: of_int_le_iff)
  then have a1: "1 \<le> a" by (simp add: a_def)
  have a53: "a \<le> pow2 53"
  proof -
    have "(of_int \<bar>k\<bar> :: rat) \<le> of_int 9007199254740992" using assms by (simp only: of_int_le_iff)
    then show ?thesis by (simp add: a_def pow2_def)
  qed
  have apos: "0 < a" using a1 by simp
  define e where "e = ilog2 a"
  have e0: "0 \<le> e"
  proof (rule ccontr)
    assume "\<not> 0 \<le> e"
    then have "pow2 (e + 1) \<le> pow2 0" by (simp del: pow2_0)
    with ilog2_bounds(2) [OF apos] a1 show False unfolding e_def by simp
  qed
  have e53: "e \<le> 53"
  proof (rule ccontr)
    assume "\<not> e \<le> 53"
    then have "pow2 53 < pow2 e" by simp
    with ilog2_bounds(1) [OF apos] a53 show False unfolding e_def by simp
  qed
  have emax: "max e (- 1022) = e" using e0 by simp
  have int: "\<exists>j::int. a / pow2 (e - 52) = of_int j"
  proof (cases "e \<le> 52")
    case True
    then have "a / pow2 (e - 52) = a * pow2 (52 - e)"
      by (simp add: pow2_diff field_simps)
    also have "\<dots> = of_int (\<bar>k\<bar> * 2 ^ nat (52 - e))"
      using True by (simp add: a_def pow2_nat)
    finally show ?thesis by blast
  next
    case False
    with e53 have e: "e = 53" by simp
    have "pow2 53 \<le> a" using ilog2_bounds(1) [OF apos] unfolding e_def [symmetric] e .
    with a53 have "a = pow2 53" by simp
    then have "a / pow2 (e - 52) = of_int 4503599627370496"
      by (simp add: e pow2_def)
    then show ?thesis by blast
  qed
  then obtain j :: int where j: "a / pow2 (e - 52) = of_int j" by blast
  then have bk: "of_int j * pow2 (e - 52) = a"
    by (metis nonzero_divide_eq_eq pow2_pos less_irrefl)
  have E: "e = max (ilog2 \<bar>of_int k\<bar>) (- 1022)"
    using emax by (simp add: e_def a_def)
  have N: "j = round_half_even (\<bar>of_int k\<bar> / pow2 (e - 52))"
    using j by (simp add: a_def [symmetric])
  have ne: "(of_int k :: rat) \<noteq> 0" using False by simp
  have "rnd (of_int k) = Fin (if 0 < (of_int k :: rat) then a else - a)"
    using rnd_nonzero [OF ne E N] e53 by (simp add: bk)
  also have "(if 0 < (of_int k :: rat) then a else - a) = of_int k"
    by (simp add: a_def)
  finally show ?thesis .
qed

lemma pow2_nonneg [simp]: "0 \<le> pow2 e"
  using pow2_pos [of e] by (rule less_imp_le)

lemma on_grid_0 [simp]: "on_grid 0"
  unfolding on_grid_def by (rule exI [of _ 0]) simp

lemma on_grid_add: "on_grid a \<Longrightarrow> on_grid b \<Longrightarrow> on_grid (a + b)"
  unfolding on_grid_def by (metis of_int_add distrib_right)

lemma on_grid_minus: "on_grid a \<Longrightarrow> on_grid (- a)"
  unfolding on_grid_def by (metis of_int_minus mult_minus_left)

lemma on_grid_diff: "on_grid a \<Longrightarrow> on_grid b \<Longrightarrow> on_grid (a - b)"
  using on_grid_add [of a "- b"] on_grid_minus [of b] by simp

lemma on_grid_pos:
  assumes "on_grid q" and "0 < q"
  shows "pow2 (- 1074) \<le> q"
proof -
  from assms(1) obtain m :: int where q: "q = of_int m * pow2 (- 1074)"
    unfolding on_grid_def by blast
  have "0 < (of_int m :: rat)"
    using assms(2) pow2_pos [of "- 1074"] unfolding q
    by (auto simp: zero_less_mult_iff dest: less_asym)
  then have "1 \<le> m" by simp
  then have "(1 :: rat) \<le> of_int m" by simp
  then have "1 * pow2 (- 1074) \<le> of_int m * pow2 (- 1074)"
    by (intro mult_right_mono) simp_all
  then show ?thesis by (simp add: q)
qed

lemma on_grid_ulp:
  assumes "- 1022 \<le> e"
  shows "on_grid (of_int n * pow2 (e - 52))"
proof -
  have "pow2 (e - 52) = pow2 (e + 1022) * pow2 (- 1074)"
    by (simp add: pow2_add [symmetric])
  also have "pow2 (e + 1022) = of_int (2 ^ nat (e + 1022))"
    using assms by (simp add: pow2_nat)
  finally have "of_int n * pow2 (e - 52) = of_int (n * 2 ^ nat (e + 1022)) * pow2 (- 1074)"
    by simp
  then show ?thesis unfolding on_grid_def by blast
qed

lemma rnd_on_grid:
  assumes "rnd q = Fin v"
  shows "on_grid v"
proof (cases "q = 0")
  case True
  with assms show ?thesis by (simp add: rnd_def)
next
  case False
  define e where "e = max (ilog2 \<bar>q\<bar>) (- 1022)"
  define n where "n = round_half_even (\<bar>q\<bar> / pow2 (e - 52))"
  have e: "- 1022 \<le> e" by (simp add: e_def)
  from assms rnd_nonzero [OF False e_def n_def]
  have "v = of_int n * pow2 (e - 52) \<or> v = - (of_int n * pow2 (e - 52))"
    by (auto split: if_splits)
  then show ?thesis using on_grid_ulp [OF e, of n] on_grid_minus by auto
qed

lemma is_double_on_grid: "is_double q \<Longrightarrow> on_grid q"
  unfolding is_double_def by (rule rnd_on_grid)

lemma round_half_even_ge1:
  assumes "1 \<le> x"
  shows "1 \<le> round_half_even x"
proof -
  have "1 \<le> \<lfloor>x\<rfloor>" using assms by (simp add: le_floor_iff)
  then show ?thesis by (simp add: round_half_even_def Let_def)
qed

lemma rnd_positive:
  assumes "pow2 (- 1074) \<le> q"
  shows "positive_number (rnd q)"
proof -
  have qpos: "0 < q" using assms pow2_pos [of "- 1074"] by linarith
  then have ne: "q \<noteq> 0" and ab: "\<bar>q\<bar> = q" by simp_all
  define e where "e = max (ilog2 \<bar>q\<bar>) (- 1022)"
  define n where "n = round_half_even (\<bar>q\<bar> / pow2 (e - 52))"
  have e: "- 1022 \<le> e" by (simp add: e_def)
  have ulp: "pow2 (e - 52) \<le> q"
  proof (cases "- 1022 \<le> ilog2 q")
    case True
    then have "e = ilog2 q" by (simp add: e_def ab)
    then have "pow2 (e - 52) \<le> pow2 (ilog2 q)" by simp
    also have "\<dots> \<le> q" using ilog2_bounds(1) [OF qpos] .
    finally show ?thesis .
  next
    case False
    then have "e = - 1022" by (simp add: e_def ab)
    then show ?thesis using assms by simp
  qed
  have "1 \<le> \<bar>q\<bar> / pow2 (e - 52)"
    using ulp by (simp add: ab pos_le_divide_eq)
  then have n1: "1 \<le> n" unfolding n_def by (rule round_half_even_ge1)
  then have vpos: "0 < of_int n * pow2 (e - 52)" by (simp add: zero_less_mult_iff)
  show ?thesis
    using rnd_nonzero [OF ne e_def n_def] qpos vpos on_grid_ulp [OF e, of n]
    by (simp add: positive_number_def)
qed

lemma rnd_minus: "rnd (- q) = jsneg (rnd q)"
proof (cases "q = 0")
  case True
  then show ?thesis by (simp add: rnd_def)
next
  case False
  define e where "e = max (ilog2 \<bar>q\<bar>) (- 1022)"
  define n where "n = round_half_even (\<bar>q\<bar> / pow2 (e - 52))"
  have e': "e = max (ilog2 \<bar>- q\<bar>) (- 1022)" by (simp add: e_def)
  have n': "n = round_half_even (\<bar>- q\<bar> / pow2 (e - 52))" by (simp add: n_def)
  have ne: "- q \<noteq> 0" using False by simp
  show ?thesis
    unfolding rnd_nonzero [OF False e_def n_def] rnd_nonzero [OF ne e' n']
    using False by (auto simp: not_less)
qed

lemma rnd_grid_number: "grid_number (rnd q)"
proof (cases "rnd q")
  case (Fin v)
  then show ?thesis using rnd_on_grid [of q v] by (simp add: grid_number_def)
next
  case NaN
  show ?thesis
  proof (cases "q = 0")
    case True
    with NaN show ?thesis by (simp add: rnd_def)
  next
    case False
    show ?thesis
      using NaN rnd_nonzero [OF False refl refl] by (auto split: if_splits)
  qed
qed (simp_all add: grid_number_def)

lemma grid_number_0 [simp]: "grid_number (Fin 0)"
  by (simp add: grid_number_def)

lemma grid_number_not_NaN: "grid_number x \<Longrightarrow> x \<noteq> NaN"
  by (auto simp: grid_number_def)

lemma jsadd_grid_number:
  assumes "grid_number x" and "json_printable a"
  shows "grid_number (jsadd x (amount_number a))"
proof -
  obtain q where a: "amount_number a = Fin q"
    using assms(2) by (induction a rule: json_printable.induct) simp_all
  show ?thesis
    using assms(1) rnd_grid_number unfolding a
    by (cases x) (simp_all add: grid_number_def)
qed

lemma grid_less_trans:
  "grid_number x \<Longrightarrow> grid_number y \<Longrightarrow> grid_number z \<Longrightarrow> jslt x y \<Longrightarrow> jslt y z \<Longrightarrow> jslt x z"
  by (auto simp: grid_number_def)

lemma grid_not_less_trans:
  "grid_number x \<Longrightarrow> grid_number y \<Longrightarrow> grid_number z \<Longrightarrow>
     \<not> jslt x y \<Longrightarrow> \<not> jslt y z \<Longrightarrow> \<not> jslt x z"
  by (auto simp: grid_number_def)

lemma grid_less_asym: "grid_number x \<Longrightarrow> grid_number y \<Longrightarrow> jslt x y \<Longrightarrow> \<not> jslt y x"
  by (auto simp: grid_number_def)

lemma grid_less_irrefl: "\<not> jslt x x"
  by (cases x) simp_all

lemma rnd_sign:
  assumes "on_grid d"
  shows "jslt (Fin 0) (rnd d) \<longleftrightarrow> 0 < d" and "jslt (rnd d) (Fin 0) \<longleftrightarrow> d < 0"
proof -
  consider "0 < d" | "d = 0" | "d < 0" by linarith
  then have "(jslt (Fin 0) (rnd d) \<longleftrightarrow> 0 < d) \<and> (jslt (rnd d) (Fin 0) \<longleftrightarrow> d < 0)"
  proof cases
    case 1
    then have "positive_number (rnd d)"
      using rnd_positive [OF on_grid_pos [OF assms]] by simp
    then show ?thesis using 1 by (auto simp: positive_number_def)
  next
    case 2
    then show ?thesis by (simp add: rnd_def)
  next
    case 3
    then have "positive_number (rnd (- d))"
      using rnd_positive [OF on_grid_pos [OF on_grid_minus [OF assms]]] by simp
    moreover have "rnd d = jsneg (rnd (- d))"
      using rnd_minus [of "- d"] by simp
    ultimately show ?thesis using 3 by (auto simp: positive_number_def)
  qed
  then show "jslt (Fin 0) (rnd d) \<longleftrightarrow> 0 < d" and "jslt (rnd d) (Fin 0) \<longleftrightarrow> d < 0" by simp_all
qed

lemma compare_grid:
  assumes "grid_number x" and "grid_number y"
  shows "jsgt (jssub y x) (Fin 0) \<longleftrightarrow> jslt x y" and "jslt (jssub y x) (Fin 0) \<longleftrightarrow> jslt y x"
proof -
  have "(jsgt (jssub y x) (Fin 0) \<longleftrightarrow> jslt x y) \<and> (jslt (jssub y x) (Fin 0) \<longleftrightarrow> jslt y x)"
  proof (cases x)
    case x: (Fin a)
    show ?thesis
    proof (cases y)
      case y: (Fin b)
      from assms x y have "on_grid (b - a)" by (simp add: grid_number_def on_grid_diff)
      from rnd_sign [OF this] show ?thesis by (simp add: x y jssub_def jsgt_def)
    qed (use assms x in \<open>simp_all add: grid_number_def jssub_def jsgt_def\<close>)
  next
    case PInf
    then show ?thesis using assms(2)
      by (cases y) (simp_all add: grid_number_def jssub_def jsgt_def)
  next
    case NInf
    then show ?thesis using assms(2)
      by (cases y) (simp_all add: grid_number_def jssub_def jsgt_def)
  qed (use assms in \<open>simp_all add: grid_number_def\<close>)
  then show "jsgt (jssub y x) (Fin 0) \<longleftrightarrow> jslt x y" and "jslt (jssub y x) (Fin 0) \<longleftrightarrow> jslt y x"
    by simp_all
qed

lemma calculateTotal_snoc:
  "calculateTotal (xs @ [x]) = jsadd (calculateTotal xs) (amount_number (amount x))"
  by (simp add: calculateTotal_def)

lemma calculateTotal_grid:
  assumes "\<forall>exp \<in> set xs. json_printable (amount exp)"
  shows "grid_number (calculateTotal xs)"
  using assms
proof (induction xs rule: rev_induct)
  case Nil
  then show ?case by (simp add: calculateTotal_def)
next
  case (snoc x xs)
  then show ?case
    unfolding calculateTotal_snoc by (intro jsadd_grid_number) simp_all
qed

lemma or0_grid: "grid_number x \<Longrightarrow> or0 (VNum x) = VNum x"
  by (auto simp: or0_def grid_number_def)

section \<open>Properties of the aggregation\<close>

text \<open>
  Claim C6. The daily average that \<^verbatim>\<open>renderMonthlySummary\<close> displays is \<^verbatim>\<open>dailyAverage\<close>
  of the specification: the total of the month divided by the day of the month when the
  day is positive, and \<open>0\<close> otherwise; a total of 300 on day 3 gives 100, and day 0
  gives 0. The division is that of Numbers: for a finite total it is the exact quotient,
  rounded once.
\<close>

theorem avgDaily_is_dailyAverage:
  "avgDaily (renderMonthlySummary monthExpenses currentDay daysInMonth)
     = dailyAverage monthExpenses currentDay
   \<and> dailyAverage monthExpenses currentDay
     = (if 0 < currentDay then jsdiv (calculateTotal monthExpenses) (jsint currentDay) else Fin 0)
   \<and> (0 < currentDay \<and> currentDay \<le> 9007199254740992 \<and> calculateTotal monthExpenses = Fin t \<longrightarrow>
        dailyAverage monthExpenses currentDay = rnd (t / of_int currentDay))
   \<and> (calculateTotal monthExpenses = Fin 300 \<longrightarrow> dailyAverage monthExpenses 3 = Fin 100)
   \<and> dailyAverage monthExpenses 0 = Fin 0"
proof -
  have ex: "jsdiv (Fin 300) (jsint 3) = Fin 100" by code_simp
  have "dailyAverage monthExpenses currentDay = rnd (t / of_int currentDay)"
    if "0 < currentDay" "currentDay \<le> 9007199254740992" "calculateTotal monthExpenses = Fin t"
  proof -
    have "jsint currentDay = Fin (of_int currentDay)"
      unfolding jsint_def using that(1,2) by (intro rnd_of_int) simp
    then show ?thesis using that(1,3) by (simp add: dailyAverage_def)
  qed
  then show ?thesis using ex by (simp add: renderMonthlySummary_def dailyAverage_def Let_def)
qed

theorem avgDaily_is_dailyAverage_witness:
  "calculateTotal [\<lparr>id' = 5, name = ''rent'', amount = Num (Fin 300), category = ''bills'',
        date = ''2026-11-03'', timestamp = ''2026-11-03T10:40:00.000Z''\<rparr>] = Fin 300
   \<and> avgDaily (renderMonthlySummary [\<lparr>id' = 5, name = ''rent'', amount = Num (Fin 300),
        category = ''bills'', date = ''2026-11-03'',
        timestamp = ''2026-11-03T10:40:00.000Z''\<rparr>] 3 30) = Fin 100"
proof -
  let ?m = "[\<lparr>id' = 5, name = ''rent'', amount = Num (Fin 300), category = ''bills'',
        date = ''2026-11-03'', timestamp = ''2026-11-03T10:40:00.000Z''\<rparr>]"
  have "jsadd (Fin 0) (Fin 300) = Fin 300" by code_simp
  then have h: "calculateTotal ?m = Fin 300"
    by (simp add: calculateTotal_def)
  have a: "avgDaily (renderMonthlySummary ?m 3 30) = dailyAverage ?m 3"
    and d: "calculateTotal ?m = Fin 300 \<longrightarrow> dailyAverage ?m 3 = Fin 100"
    using avgDaily_is_dailyAverage [of ?m 3 30] by blast+
  from d h have "dailyAverage ?m 3 = Fin 100" by blast
  with a h show ?thesis by (simp only: simp_thms)
qed

section \<open>The total and the order of the expenses\<close>

lemma is_whole_cases:
  assumes "is_whole a"
  obtains k where "amount_number a = Fin (of_int k)" and "amount_rat a = of_int k"
proof (cases a)
  case (Num x)
  with assms obtain q where x: "x = Fin q" and q: "of_int \<lfloor>q\<rfloor> = q"
    by (cases x) simp_all
  show ?thesis using that [of "\<lfloor>q\<rfloor>"] by (simp add: Num x q)
next
  case Null
  show ?thesis using that [of 0] by (simp add: Null)
qed

lemma foldl_whole:
  assumes "list_all (\<lambda>exp. is_whole (amount exp)) xs"
    and "\<bar>of_int s\<bar> + (\<Sum>exp\<leftarrow>xs. \<bar>amount_rat (amount exp)\<bar>) \<le> 9007199254740992"
  shows "foldl (\<lambda>sum exp. jsadd sum (amount_number (amount exp))) (Fin (of_int s)) xs
           = Fin (of_int s + (\<Sum>exp\<leftarrow>xs. amount_rat (amount exp)))"
  using assms
proof (induction xs arbitrary: s)
  case Nil
  then show ?case by simp
next
  case (Cons x xs)
  from Cons.prems(1) have wx: "is_whole (amount x)"
    and wxs: "list_all (\<lambda>exp. is_whole (amount exp)) xs" by simp_all
  from wx obtain k where k: "amount_number (amount x) = Fin (of_int k)"
    and kr: "amount_rat (amount x) = of_int k" by (rule is_whole_cases)
  have nonneg: "0 \<le> (\<Sum>exp\<leftarrow>xs. \<bar>amount_rat (amount exp)\<bar>)"
    by (rule sum_list_nonneg) auto
  have b: "\<bar>(of_int (s + k) :: rat)\<bar> + (\<Sum>exp\<leftarrow>xs. \<bar>amount_rat (amount exp)\<bar>) \<le> 9007199254740992"
    using Cons.prems(2) by (simp add: kr)
  then have "\<bar>(of_int (s + k) :: rat)\<bar> \<le> of_int 9007199254740992" using nonneg by simp
  then have "\<bar>s + k\<bar> \<le> 9007199254740992"
    by (simp only: of_int_abs [symmetric] of_int_le_iff)
  then have r: "rnd (of_int s + of_int k) = Fin (of_int (s + k))"
    using rnd_of_int [of "s + k"] by simp
  show ?case
    using Cons.IH [OF wxs b] by (simp add: k kr r add.assoc)
qed

lemma calculateTotal_whole:
  assumes "whole_units xs"
  shows "calculateTotal xs = Fin (\<Sum>exp\<leftarrow>xs. amount_rat (amount exp))"
  using foldl_whole [of xs 0] assms by (simp add: whole_units_def calculateTotal_def)

lemma whole_units_mset:
  assumes "whole_units xs" and "mset ys = mset xs"
  shows "whole_units ys"
proof -
  have "set ys = set xs" using assms(2) by (rule mset_eq_setD)
  moreover have "(\<Sum>exp\<leftarrow>ys. \<bar>amount_rat (amount exp)\<bar>) = (\<Sum>exp\<leftarrow>xs. \<bar>amount_rat (amount exp)\<bar>)"
    using assms(2) by (metis mset_map sum_mset_sum_list)
  ultimately show ?thesis using assms(1) by (simp add: whole_units_def list_all_iff)
qed

text \<open>
  Claim C7, amended. The total of no expense is \<open>0\<close>; and for expenses in whole units
  (integer amounts whose absolute values add up to \<open>2^53\<close> at most) every permutation
  of the sequence has the same total. Without the restriction the total depends on the
  order, since each addition is rounded: \<open>0.1 + 0.2 + 0.3\<close> and \<open>0.3 + 0.2 + 0.1\<close>
  differ, as the counterexample shows.
\<close>

theorem calculateTotal_order_independent:
  "calculateTotal [] = Fin 0
   \<and> (whole_units xs \<and> mset ys = mset xs \<longrightarrow> calculateTotal ys = calculateTotal xs)"
proof -
  have "calculateTotal ys = calculateTotal xs" if w: "whole_units xs" and m: "mset ys = mset xs"
  proof -
    have "(\<Sum>exp\<leftarrow>ys. amount_rat (amount exp)) = (\<Sum>exp\<leftarrow>xs. amount_rat (amount exp))"
      using m by (metis mset_map sum_mset_sum_list)
    then show ?thesis
      using calculateTotal_whole [OF w] calculateTotal_whole [OF whole_units_mset [OF w m]]
      by simp
  qed
  then show ?thesis by (simp add: calculateTotal_def)
qed

theorem calculateTotal_order_independent_witness:
  "whole_units [\<lparr>id' = 1, name = ''tea'', amount = Num (Fin 10), category = ''food'',
        date = ''2026-11-01'', timestamp = ''2026-11-01T10:40:00.000Z''\<rparr>,
      \<lparr>id' = 2, name = ''bus'', amount = Num (Fin 25), category = ''travel'',
        date = ''2026-11-02'', timestamp = ''2026-11-02T10:40:00.000Z''\<rparr>]
   \<and> calculateTotal [\<lparr>id' = 2, name = ''bus'', amount = Num (Fin 25), category = ''travel'',
        date = ''2026-11-02'', timestamp = ''2026-11-02T10:40:00.000Z''\<rparr>,
       \<lparr>id' = 1, name = ''tea'', amount = Num (Fin 10), category = ''food'',
        date = ''2026-11-01'', timestamp = ''2026-11-01T10:40:00.000Z''\<rparr>]
     = calculateTotal [\<lparr>id' = 1, name = ''tea'', amount = Num (Fin 10), category = ''food'',
        date = ''2026-11-01'', timestamp = ''2026-11-01T10:40:00.000Z''\<rparr>,
      \<lparr>id' = 2, name = ''bus'', amount = Num (Fin 25), category = ''travel'',
        date = ''2026-11-02'', timestamp = ''2026-11-02T10:40:00.000Z''\<rparr>]"
proof -
  let ?a = "\<lparr>id' = 1, name = ''tea'', amount = Num (Fin 10), category = ''food'',
        date = ''2026-11-01'', timestamp = ''2026-11-01T10:40:00.000Z''\<rparr>"
  let ?b = "\<lparr>id' = 2, name = ''bus'', amount = Num (Fin 25), category = ''travel'',
        date = ''2026-11-02'', timestamp = ''2026-11-02T10:40:00.000Z''\<rparr>"
  have w: "whole_units [?a, ?b]" by (simp add: whole_units_def)
  have m: "mset [?b, ?a] = mset [?a, ?b]" by simp
  show ?thesis using w m calculateTotal_order_independent [of "[?a, ?b]" "[?b, ?a]"] by blast
qed

theorem calculateTotal_order_counterexample:
  "mset [\<lparr>id' = 3, name = ''c'', amount = Num (parseFloat ''0.3''), category = ''food'',
        date = ''2026-11-01'', timestamp = ''2026-11-01T10:40:00.000Z''\<rparr>,
      \<lparr>id' = 2, name = ''b'', amount = Num (parseFloat ''0.2''), category = ''food'',
        date = ''2026-11-01'', timestamp = ''2026-11-01T10:40:00.000Z''\<rparr>,
      \<lparr>id' = 1, name = ''a'', amount = Num (parseFloat ''0.1''), category = ''food'',
        date = ''2026-11-01'', timestamp = ''2026-11-01T10:40:00.000Z''\<rparr>]
   = mset [\<lparr>id' = 1, name = ''a'', amount = Num (parseFloat ''0.1''), category = ''food'',
        date = ''2026-11-01'', timestamp = ''2026-11-01T10:40:00.000Z''\<rparr>,
      \<lparr>id' = 2, name = ''b'', amount = Num (parseFloat ''0.2''), category = ''food'',
        date = ''2026-11-01'', timestamp = ''2026-11-01T10:40:00.000Z''\<rparr>,
      \<lparr>id' = 3, name = ''c'', amount = Num (parseFloat ''0.3''), category = ''food'',
        date = ''2026-11-01'', timestamp = ''2026-11-01T10:40:00.000Z''\<rparr>]
   \<and> calculateTotal [\<lparr>id' = 1, name = ''a'', amount = Num (parseFloat ''0.1''), category = ''food'',
        date = ''2026-11-01'', timestamp = ''2026-11-01T10:40:00.000Z''\<rparr>,
      \<lparr>id' = 2, name = ''b'', amount = Num (parseFloat ''0.2''), category = ''food'',
        date = ''2026-11-01'', timestamp = ''2026-11-01T10:40:00.000Z''\<rparr>,
      \<lparr>id' = 3, name = ''c'', amount = Num (parseFloat ''0.3''), category = ''food'',
        date = ''2026-11-01'', timestamp = ''2026-11-01T10:40:00.000Z''\<rparr>]
     = Fin (1351079888211149 / 2251799813685248)
   \<and> calculateTotal [\<lparr>id' = 3, name = ''c'', amount = Num (parseFloat ''0.3''), category = ''food'',
        date = ''2026-11-01'', timestamp = ''2026-11-01T10:40:00.000Z''\<rparr>,
      \<lparr>id' = 2, name = ''b'', amount = Num (parseFloat ''0.2''), category = ''food'',
        date = ''2026-11-01'', timestamp = ''2026-11-01T10:40:00.000Z''\<rparr>,
      \<lparr>id' = 1, name = ''a'', amount = Num (parseFloat ''0.1''), category = ''food'',
        date = ''2026-11-01'', timestamp = ''2026-11-01T10:40:00.000Z''\<rparr>]
     = Fin (5404319552844595 / 9007199254740992)
   \<and> Fin (1351079888211149 / 2251799813685248) \<noteq> Fin (5404319552844595 / 9007199254740992)"
proof -
  have c1: "calculateTotal [\<lparr>id' = 1, name = ''a'', amount = Num (parseFloat ''0.1''), category = ''food'',
        date = ''2026-11-01'', timestamp = ''2026-11-01T10:40:00.000Z''\<rparr>,
      \<lparr>id' = 2, name = ''b'', amount = Num (parseFloat ''0.2''), category = ''food'',
        date = ''2026-11-01'', timestamp = ''2026-11-01T10:40:00.000Z''\<rparr>,
      \<lparr>id' = 3, name = ''c'', amount = Num (parseFloat ''0.3''), category = ''food'',
        date = ''2026-11-01'', timestamp = ''2026-11-01T10:40:00.000Z''\<rparr>]
     = Fin (1351079888211149 / 2251799813685248)" by code_simp
  have c2: "calculateTotal [\<lparr>id' = 3, name = ''c'', amount = Num (parseFloat ''0.3''), category = ''food'',
        date = ''2026-11-01'', timestamp = ''2026-11-01T10:40:00.000Z''\<rparr>,
      \<lparr>id' = 2, name = ''b'', amount = Num (parseFloat ''0.2''), category = ''food'',
        date = ''2026-11-01'', timestamp = ''2026-11-01T10:40:00.000Z''\<rparr>,
      \<lparr>id' = 1, name = ''a'', amount = Num (parseFloat ''0.1''), category = ''food'',
        date = ''2026-11-01'', timestamp = ''2026-11-01T10:40:00.000Z''\<rparr>]
     = Fin (5404319552844595 / 9007199254740992)" by code_simp
  show ?thesis
    unfolding c1 c2 by (simp add: add.commute)
qed

section \<open>Properties of the dictionaries\<close>

lemma set_first_seen [simp]: "set (first_seen xs) = set xs"
  by (induction xs) auto

lemma distinct_first_seen [simp]: "distinct (first_seen xs)"
  by (induction xs) auto

lemma first_seen_snoc:
  "first_seen (xs @ [x]) = (if x \<in> set xs then first_seen xs else first_seen xs @ [x])"
  by (induction xs) auto

lemma map_of_tabulate:
  "map_of (map (\<lambda>c. (c, f c)) cs) k = (if k \<in> set cs then Some (f k) else None)"
  by (induction cs) auto

lemma own_update_tabulate:
  assumes "distinct cs"
  shows "own_update (map (\<lambda>c. (c, f c)) cs) k v =
     (if k \<in> set cs then map (\<lambda>c. (c, if c = k then v else f c)) cs
      else map (\<lambda>c. (c, f c)) cs @ [(k, v)])"
  using assms by (induction cs) auto

lemma ordinary_key_not_proto: "ordinary_key k \<Longrightarrow> k \<noteq> ''__proto__''"
  by (auto simp: ordinary_key_def object_prototype_names_def)

text \<open>
  The loop that fills a dictionary, for any key of the expense: on ordinary keys and
  amounts as they are loaded, the dictionary lists the keys in the order of their
  first appearance, each with the total of its expenses.
\<close>

lemma dictionary_groups:
  assumes "\<forall>exp \<in> set xs. ordinary_key (key exp) \<and> json_printable (amount exp)"
  shows "foldl (\<lambda>obj exp. jsobj_set obj (key exp)
                  (plus_amount (or0 (jsobj_get obj (key exp))) (amount exp))) [] xs
         = map (\<lambda>c. (c, VNum (calculateTotal (filter (\<lambda>exp. key exp = c) xs))))
             (first_seen (map key xs))"
  using assms
proof (induction xs rule: rev_induct)
  case Nil
  then show ?case by simp
next
  case (snoc x xs)
  define k where "k = key x"
  define a where "a = amount x"
  define f where "f = (\<lambda>c. VNum (calculateTotal (filter (\<lambda>exp. key exp = c) xs)))"
  define cs where "cs = first_seen (map key xs)"
  define dict where "dict = (\<lambda>ys. foldl (\<lambda>obj exp. jsobj_set obj (key exp)
                  (plus_amount (or0 (jsobj_get obj (key exp))) (amount exp))) [] ys)"
  have IH: "dict xs = map (\<lambda>c. (c, f c)) cs"
    using snoc by (simp add: f_def cs_def dict_def)
  have pk: "ordinary_key k" using snoc.prems by (simp add: k_def)
  have dcs: "distinct cs" by (simp add: cs_def)
  have scs: "set cs = key ` set xs" by (simp add: cs_def)
  have get: "jsobj_get (map (\<lambda>c. (c, f c)) cs) k = (if k \<in> set cs then f k else Undefined)"
    using pk by (simp add: jsobj_get_def map_of_tabulate ordinary_key_def)
  have upd: "jsobj_set obj k v = own_update obj k v" for obj v
    using ordinary_key_not_proto [OF pk] by (simp add: jsobj_set_def)
  have "dict (xs @ [x]) = jsobj_set (dict xs) k (plus_amount (or0 (jsobj_get (dict xs) k)) a)"
    by (simp add: dict_def k_def a_def)
  then have step: "dict (xs @ [x])
      = own_update (map (\<lambda>c. (c, f c)) cs) k
          (plus_amount (or0 (if k \<in> set cs then f k else Undefined)) a)"
    unfolding IH get upd .
  have tot: "calculateTotal (filter (\<lambda>exp. key exp = c) (xs @ [x]))
      = (if c = k then jsadd (calculateTotal (filter (\<lambda>exp. key exp = c) xs)) (amount_number a)
         else calculateTotal (filter (\<lambda>exp. key exp = c) xs))" for c
    by (auto simp: k_def a_def calculateTotal_snoc)
  define g where "g = (\<lambda>c. VNum (calculateTotal (filter (\<lambda>exp. key exp = c) (xs @ [x]))))"
  have g: "g c = (if c = k then VNum (jsadd (calculateTotal (filter (\<lambda>exp. key exp = k) xs)) (amount_number a))
                  else f c)" for c
    unfolding g_def f_def tot by simp
  have fs: "first_seen (map key (xs @ [x])) = (if k \<in> set cs then cs else cs @ [k])"
    using first_seen_snoc [of "map key xs" k] by (simp add: cs_def k_def)
  have "dict (xs @ [x]) = map (\<lambda>c. (c, g c)) (first_seen (map key (xs @ [x])))"
  proof (cases "k \<in> set cs")
    case True
    have "grid_number (calculateTotal (filter (\<lambda>exp. key exp = k) xs))"
      using snoc.prems by (intro calculateTotal_grid) auto
    then have v: "plus_amount (or0 (f k)) a
        = VNum (jsadd (calculateTotal (filter (\<lambda>exp. key exp = k) xs)) (amount_number a))"
      by (simp add: f_def or0_grid)
    have "dict (xs @ [x]) = map (\<lambda>c. (c, if c = k then plus_amount (or0 (f k)) a else f c)) cs"
      unfolding step own_update_tabulate [OF dcs] using True by simp
    also have "\<dots> = map (\<lambda>c. (c, g c)) cs"
      unfolding v g ..
    finally show ?thesis unfolding fs using True by simp
  next
    case False
    then have e: "filter (\<lambda>exp. key exp = k) xs = []"
      by (auto simp: scs filter_empty_conv)
    have v: "plus_amount (or0 Undefined) a = VNum (jsadd (Fin 0) (amount_number a))"
      by (simp add: or0_def)
    have gk: "g k = VNum (jsadd (Fin 0) (amount_number a))"
      unfolding g e by (simp add: calculateTotal_def)
    have "\<And>c. c \<in> set cs \<Longrightarrow> g c = f c" using False unfolding g by auto
    then have m: "map (\<lambda>c. (c, g c)) cs = map (\<lambda>c. (c, f c)) cs"
      by (intro map_cong) simp_all
    have "dict (xs @ [x]) = map (\<lambda>c. (c, f c)) cs @ [(k, plus_amount (or0 Undefined) a)]"
      unfolding step own_update_tabulate [OF dcs] using False by simp
    also have "\<dots> = map (\<lambda>c. (c, g c)) (cs @ [k])"
      by (simp add: m v gk)
    finally show ?thesis unfolding fs using False by simp
  qed
  then show ?case unfolding dict_def g_def .
qed

lemma categoryTotals_groups:
  assumes "\<forall>exp \<in> set xs. ordinary_key (category exp) \<and> json_printable (amount exp)"
  shows "categoryTotals xs = category_groups xs"
  unfolding categoryTotals_def category_groups_def using assms by (rule dictionary_groups)

lemma expensesByDate_groups:
  assumes "\<forall>exp \<in> set xs. ordinary_key (date exp) \<and> json_printable (amount exp)"
  shows "expensesByDate xs = map (\<lambda>(d, t). (d, VNum t)) (day_totals xs)"
proof -
  have "expensesByDate xs = map (\<lambda>c. (c, VNum (calculateTotal (filter (\<lambda>exp. date exp = c) xs))))
             (first_seen (map date xs))"
    unfolding expensesByDate_def using assms by (rule dictionary_groups)
  then show ?thesis by (simp add: day_totals_def comp_def)
qed

lemma Object_entries_plain:
  assumes "\<forall>p \<in> set obj. \<not> is_array_index (fst p)"
  shows "Object_entries obj = obj"
proof -
  have 1: "filter (\<lambda>(k, v). is_array_index k) obj = []"
    using assms by (auto simp: filter_empty_conv)
  have 2: "filter (\<lambda>(k, v). \<not> is_array_index k) obj = obj"
    using assms by (auto simp: filter_id_conv)
  show ?thesis by (simp add: Object_entries_def 1 2)
qed

lemma mset_Object_entries: "mset (Object_entries obj) = mset obj"
  by (simp add: Object_entries_def)

lemma length_filter_Object_entries:
  "length (filter P (Object_entries obj)) = length (filter P obj)"
proof -
  have "mset (filter P (Object_entries obj)) = mset (filter P obj)"
    by (simp add: mset_Object_entries)
  then show ?thesis by (metis size_mset)
qed

section \<open>Properties of the sort\<close>

lemma mset_sort_insert: "mset (sort_insert cmp a bs) = add_mset a (mset bs)"
  by (induction bs) simp_all

lemma mset_stable_sort: "mset (stable_sort cmp as) = mset as"
  by (induction as) (simp_all add: stable_sort_def mset_sort_insert)

lemma set_sort_insert: "set (sort_insert cmp a bs) = insert a (set bs)"
  using mset_sort_insert [of cmp a bs] by (metis set_mset_mset set_mset_add_mset_insert)

lemma set_stable_sort: "set (stable_sort cmp as) = set as"
  using mset_stable_sort [of cmp as] by (metis set_mset_mset)

lemma stable_sort_Cons:
  "stable_sort cmp (a # as) = sort_insert cmp a (stable_sort cmp as)"
  by (simp add: stable_sort_def)

lemma conforming_stable_sort: "conforming_sort stable_sort"
  by (simp add: conforming_sort_def mset_stable_sort)

lemma conforming_mset: "conforming_sort srt \<Longrightarrow> mset (srt cmp as) = mset as"
  by (simp add: conforming_sort_def)


lemma conforming_consistent:
  "conforming_sort srt \<Longrightarrow> consistent_on cmp as \<Longrightarrow> srt cmp as = stable_sort cmp as"
  by (simp add: conforming_sort_def)

lemma jssub_self_not_positive: "\<not> jsgt (jssub x x) (Fin 0)"
  by (cases x) (simp_all add: jssub_def jsgt_def rnd_def)

lemma filter_sort_insert_same_total:
  "filter (\<lambda>p. snd p = t) (sort_insert by_total_desc a bs)
     = filter (\<lambda>p. snd p = t) (a # bs)"
proof (induction bs)
  case Nil
  then show ?case by simp
next
  case (Cons b bs)
  show ?case
  proof (cases "goes_after by_total_desc a b")
    case True
    then have "snd a \<noteq> snd b"
      using jssub_self_not_positive [of "to_number (snd b)"]
      by (auto simp: by_total_desc_def goes_after_def)
    then show ?thesis using True Cons.IH by auto
  next
    case False
    then show ?thesis by simp
  qed
qed

lemma stable_sort_stable:
  "filter (\<lambda>p. snd p = t) (stable_sort by_total_desc as) = filter (\<lambda>p. snd p = t) as"
  by (induction as) (simp_all add: stable_sort_Cons filter_sort_insert_same_total, simp add: stable_sort_def)

lemma by_total_desc_grid:
  assumes "grid_number (to_number (snd a))" and "grid_number (to_number (snd b))"
  shows "goes_after by_total_desc a b \<longleftrightarrow> jslt (to_number (snd a)) (to_number (snd b))"
    and "goes_before by_total_desc a b \<longleftrightarrow> jslt (to_number (snd b)) (to_number (snd a))"
  unfolding goes_after_def goes_before_def by_total_desc_def
  using compare_grid [OF assms] by simp_all

lemma consistent_by_total_desc:
  assumes "\<forall>p \<in> set as. grid_number (to_number (snd p))"
  shows "consistent_on by_total_desc as"
  unfolding consistent_on_def ties_with_def
proof (intro ballI)
  fix a b c assume "a \<in> set as" "b \<in> set as" "c \<in> set as"
  then have g: "grid_number (to_number (snd a))" "grid_number (to_number (snd b))"
    "grid_number (to_number (snd c))" using assms by simp_all
  note s = by_total_desc_grid [OF g(1) g(1)] by_total_desc_grid [OF g(1) g(2)]
    by_total_desc_grid [OF g(2) g(1)] by_total_desc_grid [OF g(2) g(3)]
    by_total_desc_grid [OF g(1) g(3)]
  show "(\<not> goes_before by_total_desc a a \<and> \<not> goes_after by_total_desc a a)
     \<and> (\<not> goes_before by_total_desc a b \<and> \<not> goes_after by_total_desc a b \<longrightarrow>
          \<not> goes_before by_total_desc b a \<and> \<not> goes_after by_total_desc b a)
     \<and> ((\<not> goes_before by_total_desc a b \<and> \<not> goes_after by_total_desc a b)
          \<and> \<not> goes_before by_total_desc b c \<and> \<not> goes_after by_total_desc b c \<longrightarrow>
          \<not> goes_before by_total_desc a c \<and> \<not> goes_after by_total_desc a c)
     \<and> (goes_before by_total_desc a b \<and> goes_before by_total_desc b c \<longrightarrow> goes_before by_total_desc a c)
     \<and> (goes_after by_total_desc a b \<and> goes_after by_total_desc b c \<longrightarrow> goes_after by_total_desc a c)"
    unfolding s
    using grid_less_irrefl [of "to_number (snd a)"]
      grid_not_less_trans [OF g(1) g(2) g(3)] grid_not_less_trans [OF g(3) g(2) g(1)]
      grid_less_trans [OF g(1) g(2) g(3)] grid_less_trans [OF g(3) g(2) g(1)]
    by blast
qed

lemma sort_insert_is_insert_desc:
  assumes "\<forall>p \<in> set (a # bs). grid_number (to_number (snd p))"
  shows "sort_insert by_total_desc a bs = insert_desc a bs"
  using assms
proof (induction bs)
  case Nil
  then show ?case by simp
next
  case (Cons b bs)
  have "goes_after by_total_desc a b \<longleftrightarrow> jslt (to_number (snd a)) (to_number (snd b))"
    using Cons.prems by (intro by_total_desc_grid) simp_all
  then show ?case using Cons by simp
qed

lemma stable_sort_is_foldr_insert_desc:
  assumes "\<forall>p \<in> set as. grid_number (to_number (snd p))"
  shows "stable_sort by_total_desc as = foldr insert_desc as []"
  using assms
proof (induction as)
  case Nil
  then show ?case by (simp add: stable_sort_def)
next
  case (Cons a as)
  have "stable_sort by_total_desc (a # as) = sort_insert by_total_desc a (foldr insert_desc as [])"
    using Cons by (simp add: stable_sort_Cons)
  also have "\<dots> = insert_desc a (foldr insert_desc as [])"
    using Cons by (intro sort_insert_is_insert_desc) (simp add: Cons.IH [symmetric] set_stable_sort)
  finally show ?case by simp
qed

lemma sorted_sort_insert:
  assumes "sorted_wrt (\<lambda>p r. \<not> jslt (to_number (snd p)) (to_number (snd r))) bs"
    and "\<forall>p \<in> set (a # bs). grid_number (to_number (snd p))"
  shows "sorted_wrt (\<lambda>p r. \<not> jslt (to_number (snd p)) (to_number (snd r)))
           (sort_insert by_total_desc a bs)"
  using assms
proof (induction bs)
  case Nil
  then show ?case by simp
next
  case (Cons b bs)
  have pa: "grid_number (to_number (snd a))" and pb: "grid_number (to_number (snd b))"
    and pbs: "\<forall>p \<in> set bs. grid_number (to_number (snd p))"
    using Cons.prems(2) by simp_all
  have cmp: "goes_after by_total_desc a b \<longleftrightarrow> jslt (to_number (snd a)) (to_number (snd b))"
    using pa pb by (rule by_total_desc_grid)
  show ?case
  proof (cases "jslt (to_number (snd a)) (to_number (snd b))")
    case True
    have "sorted_wrt (\<lambda>p r. \<not> jslt (to_number (snd p)) (to_number (snd r)))
           (sort_insert by_total_desc a bs)"
      using Cons.prems pa pbs by (intro Cons.IH) simp_all
    moreover have "\<forall>r \<in> set (sort_insert by_total_desc a bs).
        \<not> jslt (to_number (snd b)) (to_number (snd r))"
      using Cons.prems(1) grid_less_asym [OF pa pb True]
      by (auto simp: set_sort_insert)
    ultimately show ?thesis using True cmp by simp
  next
    case False
    have "\<not> jslt (to_number (snd a)) (to_number (snd r))" if "r \<in> set bs" for r
    proof -
      have "\<not> jslt (to_number (snd b)) (to_number (snd r))" using Cons.prems(1) that by simp
      with False show ?thesis
        using grid_not_less_trans [OF pa pb] pbs that by blast
    qed
    then show ?thesis using False cmp Cons.prems(1) by simp
  qed
qed

lemma sorted_stable_sort:
  assumes "\<forall>p \<in> set as. grid_number (to_number (snd p))"
  shows "sorted_wrt (\<lambda>p r. \<not> jslt (to_number (snd p)) (to_number (snd r)))
           (stable_sort by_total_desc as)"
  using assms
proof (induction as)
  case Nil
  then show ?case by (simp add: stable_sort_def)
next
  case (Cons a as)
  show ?case
    unfolding stable_sort_Cons using Cons by (intro sorted_sort_insert) (simp_all add: set_stable_sort)
qed

section \<open>Properties of the category breakdown\<close>

lemma category_groups_grid:
  assumes "\<forall>exp \<in> set xs. json_printable (amount exp)"
  shows "\<forall>p \<in> set (category_groups xs). grid_number (to_number (snd p))"
proof
  fix p assume "p \<in> set (category_groups xs)"
  then obtain c where p: "p = (c, VNum (calculateTotal (filter (\<lambda>exp. category exp = c) xs)))"
    by (auto simp: category_groups_def)
  have "grid_number (calculateTotal (filter (\<lambda>exp. category exp = c) xs))"
    using assms by (intro calculateTotal_grid) auto
  then show "grid_number (to_number (snd p))" by (simp add: p)
qed

lemma categories_ordinary:
  assumes "conforming_sort srt"
    and "\<forall>exp \<in> set xs. ordinary_key (category exp) \<and> json_printable (amount exp)"
  shows "categories srt xs = stable_sort by_total_desc (Object_entries (category_groups xs))"
proof -
  have "\<forall>p \<in> set (category_groups xs). grid_number (to_number (snd p))"
    using assms(2) by (intro category_groups_grid) simp
  then have "\<forall>p \<in> set (Object_entries (category_groups xs)). grid_number (to_number (snd p))"
    by (metis mset_Object_entries set_mset_mset)
  then have "consistent_on by_total_desc (Object_entries (category_groups xs))"
    by (rule consistent_by_total_desc)
  then show ?thesis
    unfolding categories_def categoryTotals_groups [OF assms(2)]
    by (rule conforming_consistent [OF assms(1)])
qed

lemma categories_plain:
  assumes "conforming_sort srt"
    and "\<forall>exp \<in> set xs. plain_key (category exp) \<and> json_printable (amount exp)"
  shows "categories srt xs = stable_sort by_total_desc (category_groups xs)"
    and "categories srt xs = categoryBreakdown xs"
proof -
  have o: "\<forall>exp \<in> set xs. ordinary_key (category exp) \<and> json_printable (amount exp)"
    using assms(2) by (simp add: plain_key_def)
  have "\<forall>p \<in> set (category_groups xs). \<not> is_array_index (fst p)"
    using assms(2) by (auto simp: category_groups_def plain_key_def)
  then have e: "Object_entries (category_groups xs) = category_groups xs"
    by (rule Object_entries_plain)
  show 1: "categories srt xs = stable_sort by_total_desc (category_groups xs)"
    using categories_ordinary [OF assms(1) o] by (simp add: e)
  have "\<forall>p \<in> set (category_groups xs). grid_number (to_number (snd p))"
    using assms(2) by (intro category_groups_grid) simp
  then show "categories srt xs = categoryBreakdown xs"
    unfolding 1 categoryBreakdown_def by (rule stable_sort_is_foldr_insert_desc)
qed

lemma example_month_plain:
  "\<forall>exp \<in> set [\<lparr>id' = 1, name = ''lunch'', amount = Num (Fin 100), category = ''food'',
        date = ''2026-11-01'', timestamp = ''2026-11-01T10:40:00.000Z''\<rparr>,
      \<lparr>id' = 2, name = ''bus'', amount = Num (Fin 50), category = ''travel'',
        date = ''2026-11-02'', timestamp = ''2026-11-02T10:40:00.000Z''\<rparr>,
      \<lparr>id' = 3, name = ''tea'', amount = Num (Fin 25), category = ''food'',
        date = ''2026-11-03'', timestamp = ''2026-11-03T10:40:00.000Z''\<rparr>].
     plain_key (category exp) \<and> json_printable (amount exp)"
  by (simp add: plain_key_def ordinary_key_def is_array_index_def is_digit_def
      object_prototype_names_def)

text \<open>
  Claim C5, amended. For every sort that conforms: no expense gives no category, and
  the expenses (food, 100), (travel, 50), (food, 25) give (food, 125), (travel, 50). For
  expenses whose category is a plain key and whose amount is as it is loaded (a finite
  Number or \<^verbatim>\<open>null\<close>), \<^verbatim>\<open>categories\<close> is \<^verbatim>\<open>categoryBreakdown\<close> of the specification: each
  category once with the total of its expenses, in descending order of the totals, the
  categories of equal total in the order in which the input first shows them. A category
  that is an array index such as \<^verbatim>\<open>1\<close> is listed before every other one of the same
  total, whatever the order of the input: the counterexample.
\<close>

theorem categories_is_categoryBreakdown:
  assumes "conforming_sort srt"
  shows "categories srt [] = [] \<and> renderCategoryBreakdown srt [] = Inr []
   \<and> categories srt [\<lparr>id' = 1, name = ''lunch'', amount = Num (Fin 100), category = ''food'',
        date = ''2026-11-01'', timestamp = ''2026-11-01T10:40:00.000Z''\<rparr>,
      \<lparr>id' = 2, name = ''bus'', amount = Num (Fin 50), category = ''travel'',
        date = ''2026-11-02'', timestamp = ''2026-11-02T10:40:00.000Z''\<rparr>,
      \<lparr>id' = 3, name = ''tea'', amount = Num (Fin 25), category = ''food'',
        date = ''2026-11-03'', timestamp = ''2026-11-03T10:40:00.000Z''\<rparr>]
     = [(''food'', VNum (Fin 125)), (''travel'', VNum (Fin 50))]
   \<and> ((\<forall>exp \<in> set monthExpenses. plain_key (category exp) \<and> json_printable (amount exp)) \<longrightarrow>
        categories srt monthExpenses = categoryBreakdown monthExpenses
        \<and> mset (categories srt monthExpenses) = mset (category_groups monthExpenses)
        \<and> sorted_wrt (\<lambda>p r. \<not> jslt (to_number (snd p)) (to_number (snd r)))
              (categories srt monthExpenses)
        \<and> (\<forall>t. filter (\<lambda>p. snd p = t) (categories srt monthExpenses)
                 = filter (\<lambda>p. snd p = t) (category_groups monthExpenses)))"
proof -
  have "mset (categories srt []) = {#}"
    by (simp add: categories_def categoryTotals_def Object_entries_def conforming_mset [OF assms])
  then have e: "categories srt [] = []" by simp
  have r: "renderCategoryBreakdown srt [] = Inr []"
    by (simp add: renderCategoryBreakdown_def)
  have "categoryBreakdown [\<lparr>id' = 1, name = ''lunch'', amount = Num (Fin 100), category = ''food'',
        date = ''2026-11-01'', timestamp = ''2026-11-01T10:40:00.000Z''\<rparr>,
      \<lparr>id' = 2, name = ''bus'', amount = Num (Fin 50), category = ''travel'',
        date = ''2026-11-02'', timestamp = ''2026-11-02T10:40:00.000Z''\<rparr>,
      \<lparr>id' = 3, name = ''tea'', amount = Num (Fin 25), category = ''food'',
        date = ''2026-11-03'', timestamp = ''2026-11-03T10:40:00.000Z''\<rparr>]
     = [(''food'', VNum (Fin 125)), (''travel'', VNum (Fin 50))]"
    by code_simp
  then have x: "categories srt [\<lparr>id' = 1, name = ''lunch'', amount = Num (Fin 100), category = ''food'',
        date = ''2026-11-01'', timestamp = ''2026-11-01T10:40:00.000Z''\<rparr>,
      \<lparr>id' = 2, name = ''bus'', amount = Num (Fin 50), category = ''travel'',
        date = ''2026-11-02'', timestamp = ''2026-11-02T10:40:00.000Z''\<rparr>,
      \<lparr>id' = 3, name = ''tea'', amount = Num (Fin 25), category = ''food'',
        date = ''2026-11-03'', timestamp = ''2026-11-03T10:40:00.000Z''\<rparr>]
     = [(''food'', VNum (Fin 125)), (''travel'', VNum (Fin 50))]"
    using categories_plain(2) [OF assms example_month_plain] by simp
  have "categories srt monthExpenses = categoryBreakdown monthExpenses
        \<and> mset (categories srt monthExpenses) = mset (category_groups monthExpenses)
        \<and> sorted_wrt (\<lambda>p r. \<not> jslt (to_number (snd p)) (to_number (snd r)))
              (categories srt monthExpenses)
        \<and> (\<forall>t. filter (\<lambda>p. snd p = t) (categories srt monthExpenses)
                 = filter (\<lambda>p. snd p = t) (category_groups monthExpenses))"
    if h: "\<forall>exp \<in> set monthExpenses. plain_key (category exp) \<and> json_printable (amount exp)"
  proof -
    have g: "\<forall>p \<in> set (category_groups monthExpenses). grid_number (to_number (snd p))"
      using h by (intro category_groups_grid) simp
    note eq = categories_plain(1) [OF assms h]
    have a: "mset (categories srt monthExpenses) = mset (category_groups monthExpenses)"
      by (simp only: eq mset_stable_sort)
    have b: "sorted_wrt (\<lambda>p r. \<not> jslt (to_number (snd p)) (to_number (snd r)))
              (categories srt monthExpenses)"
      unfolding eq using g by (rule sorted_stable_sort)
    have c: "\<forall>t. filter (\<lambda>p. snd p = t) (categories srt monthExpenses)
                 = filter (\<lambda>p. snd p = t) (category_groups monthExpenses)"
      by (simp only: eq stable_sort_stable simp_thms)
    show ?thesis using categories_plain(2) [OF assms h] a b c by blast
  qed
  with e r x show ?thesis by blast
qed

theorem categories_is_categoryBreakdown_witness:
  "conforming_sort stable_sort
   \<and> list_all (\<lambda>exp. plain_key (category exp) \<and> json_printable (amount exp))
     [\<lparr>id' = 1, name = ''lunch'', amount = Num (Fin 100), category = ''food'',
        date = ''2026-11-01'', timestamp = ''2026-11-01T10:40:00.000Z''\<rparr>,
      \<lparr>id' = 2, name = ''bus'', amount = Num (Fin 50), category = ''travel'',
        date = ''2026-11-02'', timestamp = ''2026-11-02T10:40:00.000Z''\<rparr>,
      \<lparr>id' = 3, name = ''tea'', amount = Num (Fin 25), category = ''food'',
        date = ''2026-11-03'', timestamp = ''2026-11-03T10:40:00.000Z''\<rparr>]
   \<and> categories stable_sort [\<lparr>id' = 1, name = ''lunch'', amount = Num (Fin 100), category = ''food'',
        date = ''2026-11-01'', timestamp = ''2026-11-01T10:40:00.000Z''\<rparr>,
      \<lparr>id' = 2, name = ''bus'', amount = Num (Fin 50), category = ''travel'',
        date = ''2026-11-02'', timestamp = ''2026-11-02T10:40:00.000Z''\<rparr>,
      \<lparr>id' = 3, name = ''tea'', amount = Num (Fin 25), category = ''food'',
        date = ''2026-11-03'', timestamp = ''2026-11-03T10:40:00.000Z''\<rparr>]
     = categoryBreakdown [\<lparr>id' = 1, name = ''lunch'', amount = Num (Fin 100), category = ''food'',
        date = ''2026-11-01'', timestamp = ''2026-11-01T10:40:00.000Z''\<rparr>,
      \<lparr>id' = 2, name = ''bus'', amount = Num (Fin 50), category = ''travel'',
        date = ''2026-11-02'', timestamp = ''2026-11-02T10:40:00.000Z''\<rparr>,
      \<lparr>id' = 3, name = ''tea'', amount = Num (Fin 25), category = ''food'',
        date = ''2026-11-03'', timestamp = ''2026-11-03T10:40:00.000Z''\<rparr>]
   \<and> categories stable_sort [\<lparr>id' = 1, name = ''lunch'', amount = Num (Fin 100), category = ''food'',
        date = ''2026-11-01'', timestamp = ''2026-11-01T10:40:00.000Z''\<rparr>,
      \<lparr>id' = 2, name = ''bus'', amount = Num (Fin 50), category = ''travel'',
        date = ''2026-11-02'', timestamp = ''2026-11-02T10:40:00.000Z''\<rparr>,
      \<lparr>id' = 3, name = ''tea'', amount = Num (Fin 25), category = ''food'',
        date = ''2026-11-03'', timestamp = ''2026-11-03T10:40:00.000Z''\<rparr>]
     = [(''food'', VNum (Fin 125)), (''travel'', VNum (Fin 50))]
   \<and> sorted_wrt (\<lambda>p r. \<not> jslt (to_number (snd p)) (to_number (snd r)))
        (categories stable_sort [\<lparr>id' = 1, name = ''lunch'', amount = Num (Fin 100), category = ''food'',
        date = ''2026-11-01'', timestamp = ''2026-11-01T10:40:00.000Z''\<rparr>,
      \<lparr>id' = 2, name = ''bus'', amount = Num (Fin 50), category = ''travel'',
        date = ''2026-11-02'', timestamp = ''2026-11-02T10:40:00.000Z''\<rparr>,
      \<lparr>id' = 3, name = ''tea'', amount = Num (Fin 25), category = ''food'',
        date = ''2026-11-03'', timestamp = ''2026-11-03T10:40:00.000Z''\<rparr>])"
proof -
  let ?m = "[\<lparr>id' = 1, name = ''lunch'', amount = Num (Fin 100), category = ''food'',
        date = ''2026-11-01'', timestamp = ''2026-11-01T10:40:00.000Z''\<rparr>,
      \<lparr>id' = 2, name = ''bus'', amount = Num (Fin 50), category = ''travel'',
        date = ''2026-11-02'', timestamp = ''2026-11-02T10:40:00.000Z''\<rparr>,
      \<lparr>id' = 3, name = ''tea'', amount = Num (Fin 25), category = ''food'',
        date = ''2026-11-03'', timestamp = ''2026-11-03T10:40:00.000Z''\<rparr>]"
  have h: "\<forall>exp \<in> set ?m. plain_key (category exp) \<and> json_printable (amount exp)"
    by (rule example_month_plain)
  have l: "list_all (\<lambda>exp. plain_key (category exp) \<and> json_printable (amount exp)) ?m"
    using h unfolding list_all_iff .
  show ?thesis
    using h l conforming_stable_sort
      categories_is_categoryBreakdown [OF conforming_stable_sort, of ?m]
    by blast
qed

theorem categories_order_counterexample:
  "conforming_sort stable_sort
   \<and> categories stable_sort [\<lparr>id' = 1, name = ''lunch'', amount = Num (Fin 10), category = ''food'',
        date = ''2026-11-01'', timestamp = ''2026-11-01T10:40:00.000Z''\<rparr>,
      \<lparr>id' = 2, name = ''bus'', amount = Num (Fin 10), category = ''1'',
        date = ''2026-11-02'', timestamp = ''2026-11-02T10:40:00.000Z''\<rparr>]
     = [(''1'', VNum (Fin 10)), (''food'', VNum (Fin 10))]
   \<and> categoryBreakdown [\<lparr>id' = 1, name = ''lunch'', amount = Num (Fin 10), category = ''food'',
        date = ''2026-11-01'', timestamp = ''2026-11-01T10:40:00.000Z''\<rparr>,
      \<lparr>id' = 2, name = ''bus'', amount = Num (Fin 10), category = ''1'',
        date = ''2026-11-02'', timestamp = ''2026-11-02T10:40:00.000Z''\<rparr>]
     = [(''food'', VNum (Fin 10)), (''1'', VNum (Fin 10))]
   \<and> categories stable_sort [\<lparr>id' = 1, name = ''lunch'', amount = Num (Fin 10), category = ''food'',
        date = ''2026-11-01'', timestamp = ''2026-11-01T10:40:00.000Z''\<rparr>,
      \<lparr>id' = 2, name = ''bus'', amount = Num (Fin 10), category = ''1'',
        date = ''2026-11-02'', timestamp = ''2026-11-02T10:40:00.000Z''\<rparr>]
     \<noteq> categoryBreakdown [\<lparr>id' = 1, name = ''lunch'', amount = Num (Fin 10), category = ''food'',
        date = ''2026-11-01'', timestamp = ''2026-11-01T10:40:00.000Z''\<rparr>,
      \<lparr>id' = 2, name = ''bus'', amount = Num (Fin 10), category = ''1'',
        date = ''2026-11-02'', timestamp = ''2026-11-02T10:40:00.000Z''\<rparr>]"
proof -
  have c: "categories stable_sort [\<lparr>id' = 1, name = ''lunch'', amount = Num (Fin 10), category = ''food'',
        date = ''2026-11-01'', timestamp = ''2026-11-01T10:40:00.000Z''\<rparr>,
      \<lparr>id' = 2, name = ''bus'', amount = Num (Fin 10), category = ''1'',
        date = ''2026-11-02'', timestamp = ''2026-11-02T10:40:00.000Z''\<rparr>]
     = [(''1'', VNum (Fin 10)), (''food'', VNum (Fin 10))]" by code_simp
  have g: "categoryBreakdown [\<lparr>id' = 1, name = ''lunch'', amount = Num (Fin 10), category = ''food'',
        date = ''2026-11-01'', timestamp = ''2026-11-01T10:40:00.000Z''\<rparr>,
      \<lparr>id' = 2, name = ''bus'', amount = Num (Fin 10), category = ''1'',
        date = ''2026-11-02'', timestamp = ''2026-11-02T10:40:00.000Z''\<rparr>]
     = [(''food'', VNum (Fin 10)), (''1'', VNum (Fin 10))]" by code_simp
  show ?thesis unfolding c g using conforming_stable_sort by simp
qed

text \<open>The same list from every sort that conforms: the totals are Numbers.\<close>

lemma categories_array_index_first:
  assumes "conforming_sort srt"
  shows "categories srt [\<lparr>id' = 1, name = ''lunch'', amount = Num (Fin 10), category = ''food'',
        date = ''2026-11-01'', timestamp = ''2026-11-01T10:40:00.000Z''\<rparr>,
      \<lparr>id' = 2, name = ''bus'', amount = Num (Fin 10), category = ''1'',
        date = ''2026-11-02'', timestamp = ''2026-11-02T10:40:00.000Z''\<rparr>]
     = [(''1'', VNum (Fin 10)), (''food'', VNum (Fin 10))]"
proof -
  have o: "\<forall>exp \<in> set [\<lparr>id' = 1, name = ''lunch'', amount = Num (Fin 10), category = ''food'',
        date = ''2026-11-01'', timestamp = ''2026-11-01T10:40:00.000Z''\<rparr>,
      \<lparr>id' = 2, name = ''bus'', amount = Num (Fin 10), category = ''1'',
        date = ''2026-11-02'', timestamp = ''2026-11-02T10:40:00.000Z''\<rparr>].
      ordinary_key (category exp) \<and> json_printable (amount exp)"
    by (simp add: ordinary_key_def object_prototype_names_def)
  have "stable_sort by_total_desc (Object_entries (category_groups [\<lparr>id' = 1, name = ''lunch'', amount = Num (Fin 10), category = ''food'',
        date = ''2026-11-01'', timestamp = ''2026-11-01T10:40:00.000Z''\<rparr>,
      \<lparr>id' = 2, name = ''bus'', amount = Num (Fin 10), category = ''1'',
        date = ''2026-11-02'', timestamp = ''2026-11-02T10:40:00.000Z''\<rparr>]))
     = [(''1'', VNum (Fin 10)), (''food'', VNum (Fin 10))]" by code_simp
  then show ?thesis using categories_ordinary [OF assms o] by simp
qed

section \<open>The insights and the rules of the specification\<close>

lemma length_filter_day_totals:
  "length (filter (\<lambda>(date, total). jsgt (to_number total) x)
             (map (\<lambda>(d, t). (d, VNum t)) ds))
     = length (filter (\<lambda>(d, total). jsgt total x) ds)"
  by (induction ds) auto

lemma insights_is_deriveInsights:
  assumes "conforming_sort srt"
    and "\<forall>exp \<in> set monthExpenses. plain_key (category exp) \<and> ordinary_key (date exp)
           \<and> json_printable (amount exp)"
  shows "insights srt todayExpenses monthExpenses currentDay
           = deriveInsights todayExpenses monthExpenses currentDay"
proof -
  have c: "categories srt monthExpenses = categoryBreakdown monthExpenses"
    using assms by (intro categories_plain(2)) simp_all
  have d: "expensesByDate monthExpenses = map (\<lambda>(d, t). (d, VNum t)) (day_totals monthExpenses)"
    using assms(2) by (intro expensesByDate_groups) simp
  have n: "length (filter (\<lambda>(date, total). jsgt (to_number total) x)
             (Object_entries (expensesByDate monthExpenses)))
     = length (filter (\<lambda>(d, total). jsgt total x) (day_totals monthExpenses))" for x
    unfolding length_filter_Object_entries d by (rule length_filter_day_totals)
  show ?thesis
    unfolding insights_def deriveInsights_def rule_above_average_def rule_highest_category_def
      rule_multiple_days_def rule_threshold_def dailyAverage_def highestCategory_def Let_def c n
    by (simp split: list.splits)
qed

lemma rule_lengths:
  "length (rule_above_average t m d) \<le> 1" "length (rule_highest_category m) \<le> 1"
  "length (rule_multiple_days m d) \<le> 1" "length (rule_threshold t) \<le> 1"
  by (simp_all add: rule_above_average_def rule_highest_category_def
      rule_multiple_days_def rule_threshold_def split: option.splits)

lemma msg_highest_not_under_control: "msg_highest c \<noteq> msg_under_control"
proof
  assume "msg_highest c = msg_under_control"
  then have "last (msg_highest c) = last msg_under_control" by simp
  then show False by (simp add: msg_highest_def msg_under_control_def)
qed

lemma msgs_not_under_control:
  "msg_above_average \<noteq> msg_under_control" "msg_multiple_days \<noteq> msg_under_control"
  "msg_threshold \<noteq> msg_under_control"
  by (simp_all add: msg_above_average_def msg_multiple_days_def msg_threshold_def
      msg_under_control_def)

lemma rules_not_under_control:
  "msg_under_control \<notin> set (rule_above_average t m d @ rule_highest_category m
      @ rule_multiple_days m d @ rule_threshold t)"
  using msg_highest_not_under_control msgs_not_under_control
  by (auto simp: rule_above_average_def rule_highest_category_def rule_multiple_days_def
      rule_threshold_def split: option.splits dest: sym)

text \<open>
  Claim C3, amended. For a month that is not empty, whose categories are plain keys,
  whose dates are ordinary keys and whose amounts are as they are loaded, and for
  every sort that conforms, the insights are \<^verbatim>\<open>deriveInsights\<close> of the specification:
  what rules 2 to 5 contribute, in that order, each rule none or one insight whatever
  the others do, and the fallback insight alone when the four rules contribute nothing.
  With a category that is an array index the insight of the highest category can name
  another category than the rule of the specification: the counterexample.
\<close>

theorem insights_in_rule_order:
  assumes "conforming_sort srt" and "monthExpenses \<noteq> []"
    and "\<forall>exp \<in> set monthExpenses. plain_key (category exp) \<and> ordinary_key (date exp)
           \<and> json_printable (amount exp)"
  shows "insights srt todayExpenses monthExpenses currentDay =
     (let rs = rule_above_average todayExpenses monthExpenses currentDay
               @ rule_highest_category monthExpenses
               @ rule_multiple_days monthExpenses currentDay
               @ rule_threshold todayExpenses
      in if rs = [] then [msg_under_control] else rs)
   \<and> renderInsights srt todayExpenses monthExpenses currentDay =
       concat (map (\<lambda>insight. ''<div class='' @ [CHR 0x22] @ ''insight-item'' @ [CHR 0x22] @ ''>'' @ insight @ ''</div>'')
         (insights srt todayExpenses monthExpenses currentDay))
   \<and> (msg_under_control \<in> set (insights srt todayExpenses monthExpenses currentDay))
       = (rule_above_average todayExpenses monthExpenses currentDay
          @ rule_highest_category monthExpenses
          @ rule_multiple_days monthExpenses currentDay
          @ rule_threshold todayExpenses = [])
   \<and> length (rule_above_average todayExpenses monthExpenses currentDay) \<le> 1
   \<and> length (rule_highest_category monthExpenses) \<le> 1
   \<and> length (rule_multiple_days monthExpenses currentDay) \<le> 1
   \<and> length (rule_threshold todayExpenses) \<le> 1"
proof -
  note i = insights_is_deriveInsights [OF assms(1,3), of todayExpenses currentDay]
  have f: "(msg_under_control \<in> set (insights srt todayExpenses monthExpenses currentDay))
       = (rule_above_average todayExpenses monthExpenses currentDay
          @ rule_highest_category monthExpenses
          @ rule_multiple_days monthExpenses currentDay
          @ rule_threshold todayExpenses = [])"
    using rules_not_under_control [of todayExpenses monthExpenses currentDay]
    unfolding i deriveInsights_def Let_def by (simp del: set_append append_is_Nil_conv)
  have "renderInsights srt todayExpenses monthExpenses currentDay =
       concat (map (\<lambda>insight. ''<div class='' @ [CHR 0x22] @ ''insight-item'' @ [CHR 0x22] @ ''>'' @ insight @ ''</div>'')
         (insights srt todayExpenses monthExpenses currentDay))"
    using assms(2) by (simp add: renderInsights_def)
  then show ?thesis
    using i f rule_lengths(1) [of todayExpenses monthExpenses currentDay]
      rule_lengths(2) [of monthExpenses] rule_lengths(3) [of monthExpenses currentDay]
      rule_lengths(4) [of todayExpenses]
    unfolding deriveInsights_def by blast
qed

theorem insights_in_rule_order_witness:
  "conforming_sort stable_sort
   \<and> list_all (\<lambda>exp. plain_key (category exp) \<and> ordinary_key (date exp) \<and> json_printable (amount exp))
     [\<lparr>id' = 1, name = ''lunch'', amount = Num (Fin 600), category = ''food'',
        date = ''2026-11-01'', timestamp = ''2026-11-01T10:40:00.000Z''\<rparr>,
      \<lparr>id' = 2, name = ''train'', amount = Num (Fin 600), category = ''travel'',
        date = ''2026-11-02'', timestamp = ''2026-11-02T10:40:00.000Z''\<rparr>,
      \<lparr>id' = 3, name = ''dinner'', amount = Num (Fin 600), category = ''food'',
        date = ''2026-11-03'', timestamp = ''2026-11-03T10:40:00.000Z''\<rparr>]
   \<and> insights stable_sort [\<lparr>id' = 3, name = ''dinner'', amount = Num (Fin 600), category = ''food'',
        date = ''2026-11-03'', timestamp = ''2026-11-03T10:40:00.000Z''\<rparr>]
     [\<lparr>id' = 1, name = ''lunch'', amount = Num (Fin 600), category = ''food'',
        date = ''2026-11-01'', timestamp = ''2026-11-01T10:40:00.000Z''\<rparr>,
      \<lparr>id' = 2, name = ''train'', amount = Num (Fin 600), category = ''travel'',
        date = ''2026-11-02'', timestamp = ''2026-11-02T10:40:00.000Z''\<rparr>,
      \<lparr>id' = 3, name = ''dinner'', amount = Num (Fin 600), category = ''food'',
        date = ''2026-11-03'', timestamp = ''2026-11-03T10:40:00.000Z''\<rparr>] 30
     = [msg_above_average, msg_highest ''food'', msg_multiple_days, msg_threshold]"
proof -
  let ?t = "[\<lparr>id' = 3, name = ''dinner'', amount = Num (Fin 600), category = ''food'',
        date = ''2026-11-03'', timestamp = ''2026-11-03T10:40:00.000Z''\<rparr>]"
  let ?m = "[\<lparr>id' = 1, name = ''lunch'', amount = Num (Fin 600), category = ''food'',
        date = ''2026-11-01'', timestamp = ''2026-11-01T10:40:00.000Z''\<rparr>,
      \<lparr>id' = 2, name = ''train'', amount = Num (Fin 600), category = ''travel'',
        date = ''2026-11-02'', timestamp = ''2026-11-02T10:40:00.000Z''\<rparr>,
      \<lparr>id' = 3, name = ''dinner'', amount = Num (Fin 600), category = ''food'',
        date = ''2026-11-03'', timestamp = ''2026-11-03T10:40:00.000Z''\<rparr>]"
  have h: "\<forall>exp \<in> set ?m. plain_key (category exp) \<and> ordinary_key (date exp)
           \<and> json_printable (amount exp)"
    by (simp add: plain_key_def ordinary_key_def is_array_index_def is_digit_def
        object_prototype_names_def)
  have l: "list_all (\<lambda>exp. plain_key (category exp) \<and> ordinary_key (date exp)
           \<and> json_printable (amount exp)) ?m"
    using h unfolding list_all_iff .
  have ne: "?m \<noteq> []" by simp
  have r2: "rule_above_average ?t ?m 30 = [msg_above_average]" by code_simp
  have r3: "rule_highest_category ?m = [msg_highest ''food'']" by code_simp
  have r4: "rule_multiple_days ?m 30 = [msg_multiple_days]" by code_simp
  have r5: "rule_threshold ?t = [msg_threshold]" by code_simp
  have "insights stable_sort ?t ?m 30
     = [msg_above_average, msg_highest ''food'', msg_multiple_days, msg_threshold]"
    using insights_in_rule_order [OF conforming_stable_sort ne h, of ?t 30]
    unfolding r2 r3 r4 r5 by simp
  then show ?thesis using l conforming_stable_sort by blast
qed

theorem insights_highest_category_counterexample:
  "conforming_sort stable_sort
   \<and> insights stable_sort [] [\<lparr>id' = 1, name = ''lunch'', amount = Num (Fin 10), category = ''food'',
        date = ''2026-11-01'', timestamp = ''2026-11-01T10:40:00.000Z''\<rparr>,
      \<lparr>id' = 2, name = ''bus'', amount = Num (Fin 10), category = ''1'',
        date = ''2026-11-02'', timestamp = ''2026-11-02T10:40:00.000Z''\<rparr>] 5
     = [msg_highest ''1'']
   \<and> deriveInsights [] [\<lparr>id' = 1, name = ''lunch'', amount = Num (Fin 10), category = ''food'',
        date = ''2026-11-01'', timestamp = ''2026-11-01T10:40:00.000Z''\<rparr>,
      \<lparr>id' = 2, name = ''bus'', amount = Num (Fin 10), category = ''1'',
        date = ''2026-11-02'', timestamp = ''2026-11-02T10:40:00.000Z''\<rparr>] 5
     = [msg_highest ''food'']
   \<and> msg_highest ''1'' \<noteq> msg_highest ''food''"
proof -
  have i: "insights stable_sort [] [\<lparr>id' = 1, name = ''lunch'', amount = Num (Fin 10), category = ''food'',
        date = ''2026-11-01'', timestamp = ''2026-11-01T10:40:00.000Z''\<rparr>,
      \<lparr>id' = 2, name = ''bus'', amount = Num (Fin 10), category = ''1'',
        date = ''2026-11-02'', timestamp = ''2026-11-02T10:40:00.000Z''\<rparr>] 5
     = [msg_highest ''1'']" by code_simp
  have d: "deriveInsights [] [\<lparr>id' = 1, name = ''lunch'', amount = Num (Fin 10), category = ''food'',
        date = ''2026-11-01'', timestamp = ''2026-11-01T10:40:00.000Z''\<rparr>,
      \<lparr>id' = 2, name = ''bus'', amount = Num (Fin 10), category = ''1'',
        date = ''2026-11-02'', timestamp = ''2026-11-02T10:40:00.000Z''\<rparr>] 5
     = [msg_highest ''food'']" by code_simp
  show ?thesis unfolding i d using conforming_stable_sort by (simp add: msg_highest_def)
qed

section \<open>The insights as the program shows them\<close>









end
